theory Spec2Isabelle
  imports Main
begin


section \<open>JavaScript values used by the client\<close>

text \<open>
  A JavaScript string is modelled as the list of its code units; the control channel
  carries Latin-1 text, so a code unit is a \<^typ>\<open>char\<close>.  A JavaScript number is a
  double; every number the client computes is an integer, a NaN or an infinity, so
  \<open>Num\<close> holds the integer value of a finite double (the two zeros are not told apart:
  no comparison or template string of the client can distinguish them).
\<close>

datatype jsnum = NaN | Num int | PosInfinity | NegInfinity

function bits :: "int \<Rightarrow> nat" where
  "bits n = (if n \<le> 0 then 0 else Suc (bits (n div 2)))"
  by pat_completeness auto
termination
  by (relation "measure nat") auto

declare bits.simps [simp del]

text \<open>
  Rounding of a non-negative integer to the nearest double, ties to even, 53 bits of
  significand; \<open>None\<close> is the overflow to infinity.
\<close>

definition roundToDouble :: "int \<Rightarrow> int option" where
  "roundToDouble n =
     (if n < 2 ^ 53 then Some n
      else let e = bits n - 53;
               q = n div 2 ^ e;
               r = n mod 2 ^ e;
               h = 2 ^ (e - 1);
               q' = (if h < r \<or> (r = h \<and> odd q) then q + 1 else q);
               v = q' * 2 ^ e
           in if 2 ^ 1024 \<le> v then None else Some v)"

definition fround :: "int \<Rightarrow> jsnum" where
  "fround i =
     (if 0 \<le> i
      then (case roundToDouble i of Some v \<Rightarrow> Num v | None \<Rightarrow> PosInfinity)
      else (case roundToDouble (- i) of Some v \<Rightarrow> Num (- v) | None \<Rightarrow> NegInfinity))"

text \<open>The operators \<open>*\<close> and \<open>+\<close> on numbers: the exact result, rounded.\<close>

fun jsMul :: "jsnum \<Rightarrow> jsnum \<Rightarrow> jsnum" where
  "jsMul (Num a) (Num b) = fround (a * b)"
| "jsMul NaN _ = NaN"
| "jsMul _ NaN = NaN"
| "jsMul PosInfinity (Num b) = (if b = 0 then NaN else if 0 < b then PosInfinity else NegInfinity)"
| "jsMul NegInfinity (Num b) = (if b = 0 then NaN else if 0 < b then NegInfinity else PosInfinity)"
| "jsMul (Num a) PosInfinity = (if a = 0 then NaN else if 0 < a then PosInfinity else NegInfinity)"
| "jsMul (Num a) NegInfinity = (if a = 0 then NaN else if 0 < a then NegInfinity else PosInfinity)"
| "jsMul PosInfinity PosInfinity = PosInfinity"
| "jsMul NegInfinity NegInfinity = PosInfinity"
| "jsMul PosInfinity NegInfinity = NegInfinity"
| "jsMul NegInfinity PosInfinity = NegInfinity"

fun jsAdd :: "jsnum \<Rightarrow> jsnum \<Rightarrow> jsnum" where
  "jsAdd (Num a) (Num b) = fround (a + b)"
| "jsAdd NaN _ = NaN"
| "jsAdd _ NaN = NaN"
| "jsAdd PosInfinity NegInfinity = NaN"
| "jsAdd NegInfinity PosInfinity = NaN"
| "jsAdd PosInfinity _ = PosInfinity"
| "jsAdd NegInfinity _ = NegInfinity"
| "jsAdd _ PosInfinity = PosInfinity"
| "jsAdd _ NegInfinity = NegInfinity"

text \<open>The comparisons \<open>x >= k\<close> and \<open>x < k\<close> against an integer literal; false on NaN.\<close>

fun jsGe :: "jsnum \<Rightarrow> int \<Rightarrow> bool" where
  "jsGe (Num n) k = (k \<le> n)"
| "jsGe PosInfinity k = True"
| "jsGe _ k = False"

fun jsLt :: "jsnum \<Rightarrow> int \<Rightarrow> bool" where
  "jsLt (Num n) k = (n < k)"
| "jsLt NegInfinity k = True"
| "jsLt _ k = False"

subsection \<open>Number to string\<close>

definition digitChar :: "nat \<Rightarrow> char" where
  "digitChar d = ''0123456789'' ! d"

function natToString :: "nat \<Rightarrow> string" where
  "natToString n =
     (if n < 10 then [digitChar n] else natToString (n div 10) @ [digitChar (n mod 10)])"
  by pat_completeness auto
termination
  by (relation "measure id") auto

declare natToString.simps [simp del]

text \<open>
  The conversion a template string applies to a number.  The decimal expansion is what
  JavaScript prints for an integer of magnitude below \<open>10^21\<close>; the client only prints
  reply codes, parsed from three characters.
\<close>

fun numToString :: "jsnum \<Rightarrow> string" where
  "numToString NaN = ''NaN''"
| "numToString PosInfinity = ''Infinity''"
| "numToString NegInfinity = ''-Infinity''"
| "numToString (Num n) =
     (if n < 0 then ''-'' @ natToString (nat (- n)) else natToString (nat n))"

subsection \<open>parseInt\<close>

text \<open>
  \<open>parseInt(s)\<close> with no radix: leading white space is skipped, a sign is read, the
  prefix \<open>0x\<close> or \<open>0X\<close> selects radix 16, and the longest run of digits of the radix
  is the value; no digit at all is NaN.
\<close>

definition isWhiteSpace :: "char \<Rightarrow> bool" where
  "isWhiteSpace c = ((of_char c :: nat) \<in> {9, 10, 11, 12, 13, 32, 160})"

definition digitValue :: "nat \<Rightarrow> char \<Rightarrow> nat option" where
  "digitValue radix c =
     (let n = (of_char c :: nat);
          v = (if 48 \<le> n \<and> n \<le> 57 then Some (n - 48)
               else if 97 \<le> n \<and> n \<le> 122 then Some (n - 87)
               else if 65 \<le> n \<and> n \<le> 90 then Some (n - 55)
               else None)
      in case v of None \<Rightarrow> None | Some d \<Rightarrow> if d < radix then Some d else None)"

definition isRadixDigit :: "nat \<Rightarrow> char \<Rightarrow> bool" where
  "isRadixDigit radix c = (digitValue radix c \<noteq> None)"

definition digitsValue :: "nat \<Rightarrow> string \<Rightarrow> int" where
  "digitsValue radix z = foldl (\<lambda>a c. a * int radix + int (the (digitValue radix c))) 0 z"

definition parseInt :: "string \<Rightarrow> jsnum" where
  "parseInt s =
     (let s0 = dropWhile isWhiteSpace s;
          sign = (if s0 \<noteq> [] \<and> hd s0 = CHR ''-'' then - 1 else (1::int));
          s1 = (if s0 \<noteq> [] \<and> (hd s0 = CHR ''+'' \<or> hd s0 = CHR ''-'') then tl s0 else s0);
          hex = (take 2 s1 = ''0x'' \<or> take 2 s1 = ''0X'');
          radix = (if hex then 16 else 10);
          s2 = (if hex then drop 2 s1 else s1);
          z = takeWhile (isRadixDigit radix) s2
      in if z = [] then NaN else fround (sign * digitsValue radix z))"

subsection \<open>String methods\<close>

definition CRLF :: string where
  "CRLF = [CHR 0x0D, CHR 0x0A]"

text \<open>\<open>s.charAt(i)\<close>: the empty string when \<open>i\<close> is out of range.\<close>

definition charAt :: "string \<Rightarrow> nat \<Rightarrow> string" where
  "charAt s i = (if i < length s then [s ! i] else [])"

text \<open>
  \<open>s.substring(a, b)\<close>: both indices are clamped to the string and swapped when
  \<open>a > b\<close>; \<open>s.substring(a)\<close> runs to the end.
\<close>

definition clampIndex :: "string \<Rightarrow> int \<Rightarrow> nat" where
  "clampIndex s i = min (nat i) (length s)"

definition substring :: "string \<Rightarrow> int \<Rightarrow> int \<Rightarrow> string" where
  "substring s a b =
     (let lo = min (clampIndex s a) (clampIndex s b);
          hi = max (clampIndex s a) (clampIndex s b)
      in take (hi - lo) (drop lo s))"

definition substringFrom :: "string \<Rightarrow> nat \<Rightarrow> string" where
  "substringFrom s a = drop a s"

definition startsWith :: "string \<Rightarrow> string \<Rightarrow> bool" where
  "startsWith s p = (take (length p) s = p)"

text \<open>\<open>s.lastIndexOf(ch)\<close>: the last index of the character, or \<open>-1\<close>.\<close>

fun lastIndexOf :: "string \<Rightarrow> char \<Rightarrow> int" where
  "lastIndexOf [] ch = - 1"
| "lastIndexOf (c # cs) ch =
     (let i = lastIndexOf cs ch in if 0 \<le> i then i + 1 else if c = ch then 0 else - 1)"

text \<open>\<open>s.split('\\r\\n')\<close>: the segments between the separators, never an empty array.\<close>

fun splitCRLF :: "string \<Rightarrow> string list" where
  "splitCRLF [] = [[]]"
| "splitCRLF [c] = [[c]]"
| "splitCRLF (c # d # cs) =
     (if c = CHR 0x0D \<and> d = CHR 0x0A then [] # splitCRLF cs
      else (case splitCRLF (d # cs) of
              [] \<Rightarrow> [[c]]
            | seg # segs \<Rightarrow> (c # seg) # segs))"

fun includesStr :: "string \<Rightarrow> string \<Rightarrow> bool" where
  "includesStr [] p = (p = [])"
| "includesStr (c # cs) p = (startsWith (c # cs) p \<or> includesStr cs p)"

section \<open>utils.js\<close>

definition maskPassword :: "string \<Rightarrow> string" where
  "maskPassword command = (if startsWith command ''PASS '' then ''PASS ********'' else command)"

section \<open>The client object and promises\<close>

text \<open>\<open>new Error(message)\<close>: the client tells its errors apart by their text only.\<close>

datatype error = Error (message: string)

datatype 'a promise = Pending | Resolved 'a | Rejected error

text \<open>A promise settles once: \<open>resolve\<close> and \<open>reject\<close> on a settled promise do nothing.\<close>

definition settle :: "'a promise \<Rightarrow> 'a promise \<Rightarrow> 'a promise" where
  "settle new old = (if old = Pending then new else old)"

text \<open>
  The fields of \<open>FTPClient\<close> that the protocol engine reads and writes.  \<open>debugLog\<close>
  collects the argument lists passed to the logger and \<open>socketWritten\<close> the strings
  passed to \<open>socket.write\<close>.  \<open>commandCount\<close> counts up from zero by one and stays in
  the range where a double is an exact integer.
\<close>

record client =
  connected :: bool
  authenticated :: bool
  buffer :: string
  debug :: bool
  commandCount :: nat
  lastCommand :: "string option"
  debugLog :: "string list list"
  socketWritten :: "string list"

definition newClient :: "bool \<Rightarrow> client" where
  "newClient dbg = \<lparr> connected = False, authenticated = False, buffer = [], debug = dbg,
     commandCount = 0, lastCommand = None, debugLog = [], socketWritten = [] \<rparr>"

definition debugMsg :: "string list \<Rightarrow> client \<Rightarrow> client" where
  "debugMsg args c = (if debug c then c\<lparr> debugLog := debugLog c @ [args] \<rparr> else c)"

record reply =
  code :: jsnum
  text_message :: string
  raw :: string

section \<open>connection.js: sendCommand\<close>

text \<open>
  Every handler of a response line evaluates \<open>parseInt(line.substring(0, 3))\<close>;
  \<open>sendCommand\<close> also tests \<open>line.charAt(3) === ' '\<close>.
\<close>

definition lineCode :: "string \<Rightarrow> jsnum" where
  "lineCode line = parseInt (substring line 0 3)"

definition isFinalLine :: "string \<Rightarrow> bool" where
  "isFinalLine line = (charAt line 3 = '' '')"

text \<open>
  One call of \<open>sendCommand\<close> owns a timer, a listener on the \<open>response\<close> event and a
  promise.
\<close>

record pending =
  timerArmed :: bool
  subscribed :: bool
  result :: "reply promise"

datatype event = Response string | Deadline

definition sendCommand :: "string \<Rightarrow> client \<Rightarrow> client \<times> pending" where
  "sendCommand command c =
     (if \<not> connected c
      then (c, \<lparr> timerArmed = False, subscribed = False,
                 result = Rejected (Error ''Not connected'') \<rparr>)
      else let c1 = c\<lparr> commandCount := commandCount c + 1, lastCommand := Some command \<rparr>;
               cmdToLog = maskPassword command;
               c2 = debugMsg [''>>>'', cmdToLog] c1;
               c3 = c2\<lparr> socketWritten := socketWritten c2 @ [command @ CRLF] \<rparr>
           in (c3, \<lparr> timerArmed = True, subscribed = True, result = Pending \<rparr>))"

text \<open>The timer callback.\<close>

definition commandTimeout :: "string \<Rightarrow> client \<times> pending \<Rightarrow> client \<times> pending" where
  "commandTimeout command = (\<lambda>(c, p).
     (c, p\<lparr> timerArmed := False, subscribed := False,
           result := settle (Rejected (Error (''Command timeout: '' @ maskPassword command)))
                       (result p) \<rparr>))"

definition responseHandler :: "bool \<Rightarrow> string \<Rightarrow> client \<times> pending \<Rightarrow> client \<times> pending" where
  "responseHandler allowPreliminary line = (\<lambda>(c, p).
     let p1 = p\<lparr> timerArmed := False \<rparr>;
         cd = lineCode line;
         msg = substringFrom line 4
     in if isFinalLine line then
          if jsGe cd 100 \<and> jsLt cd 200 \<and> allowPreliminary
          then (debugMsg [''Preliminary response, waiting for completion...''] c, p1)
          else let p2 = p1\<lparr> timerArmed := False, subscribed := False \<rparr>
               in if jsGe cd 200 \<and> jsLt cd 400
                  then (c, p2\<lparr> result :=
                          settle (Resolved \<lparr> code = cd, text_message = msg, raw = line \<rparr>) (result p2) \<rparr>)
                  else (debugMsg [''Error response: '' @ numToString cd] c,
                        p2\<lparr> result :=
                          settle (Rejected (Error (''FTP Error '' @ numToString cd @ '': '' @ msg)))
                            (result p2) \<rparr>)
        else (c, p1))"

text \<open>
  What one event does to a call: a response line runs the handler while it is
  subscribed, the deadline runs the timer callback unless the timer was cleared.
\<close>

definition commandStep ::
  "string \<Rightarrow> bool \<Rightarrow> event \<Rightarrow> client \<times> pending \<Rightarrow> client \<times> pending" where
  "commandStep command allowPreliminary ev s =
     (case ev of
        Response line \<Rightarrow> if subscribed (snd s) then responseHandler allowPreliminary line s else s
      | Deadline \<Rightarrow> if timerArmed (snd s) then commandTimeout command s else s)"

definition commandRun ::
  "string \<Rightarrow> bool \<Rightarrow> event list \<Rightarrow> client \<times> pending \<Rightarrow> client \<times> pending" where
  "commandRun command allowPreliminary evs s = foldl (\<lambda>s ev. commandStep command allowPreliminary ev s) s evs"

section \<open>connection.js: the data handler of the control socket\<close>

text \<open>
  The handler of the \<open>data\<close> event is an \<open>async\<close> function: a call runs until its
  first \<open>await\<close> and is resumed, as a microtask, once the awaited promise has settled.
  A handler suspended at \<open>await this.sendCommand(...)\<close> is kept with the command of the
  login exchange it has sent, the call it awaits, and the lines of its chunk that its
  loop has not looked at yet.
\<close>

datatype loginStage = UserSent | PassSent

datatype suspended = Suspended (stage: loginStage) (call: pending) (remaining: "string list")

record session =
  sClient :: client
  loginUser :: string
  loginPassword :: string
  listeners :: "suspended list"
  microtasks :: "suspended list"
  connectResult :: "unit promise"
  emitted :: "string list"

text \<open>
  The state of one \<open>connect\<close>: the client, the \<open>user\<close> and \<open>password\<close> arguments, and
  the promise that \<open>connect\<close> returns.  \<open>listeners\<close> holds the suspended handlers whose
  awaited call is pending, in the order in which the calls subscribed their \<open>response\<close>
  listeners; \<open>microtasks\<close> holds the suspended handlers whose awaited call has settled,
  in the order of settling, which is the order in which they are resumed.  \<open>emitted\<close>
  collects the lines passed to \<open>emit('response', line)\<close>.  The \<open>response\<close> listeners of
  commands sent by other callers are not part of this state: a listener writes none of
  the fields that the handler reads.
\<close>

definition newSession :: "client \<Rightarrow> string \<Rightarrow> string \<Rightarrow> session" where
  "newSession c user password = \<lparr> sClient = c, loginUser = user, loginPassword = password,
     listeners = [], microtasks = [], connectResult = Pending, emitted = [] \<rparr>"

definition loginCommand :: "session \<Rightarrow> loginStage \<Rightarrow> string" where
  "loginCommand s st = (case st of UserSent \<Rightarrow> ''USER '' @ loginUser s
                                  | PassSent \<Rightarrow> ''PASS '' @ loginPassword s)"

text \<open>
  \<open>emit('response', line)\<close> calls the subscribed listeners in order.  A call that the
  line settles has unsubscribed, and the handler awaiting it is queued for resumption.
\<close>

fun notifyListeners ::
  "(loginStage \<Rightarrow> string) \<Rightarrow> string \<Rightarrow> suspended list \<Rightarrow> client \<Rightarrow> client \<times> suspended list" where
  "notifyListeners cmd line [] c = (c, [])"
| "notifyListeners cmd line (h # hs) c =
     (case commandStep (cmd (stage h)) False (Response line) (c, call h) of
        (c1, p1) \<Rightarrow>
          (case notifyListeners cmd line hs c1 of
             (c2, hs') \<Rightarrow> (c2, Suspended (stage h) p1 (remaining h) # hs')))"

definition emitResponse :: "string \<Rightarrow> session \<Rightarrow> session" where
  "emitResponse line s =
     (case notifyListeners (loginCommand s) line (listeners s) (sClient s) of
        (c, hs) \<Rightarrow>
          s\<lparr> sClient := c,
             listeners := filter (\<lambda>h. result (call h) = Pending) hs,
             microtasks := microtasks s @ filter (\<lambda>h. result (call h) \<noteq> Pending) hs,
             emitted := emitted s @ [line] \<rparr>)"

text \<open>
  \<open>await this.sendCommand(command)\<close>: the command is sent at once (counters, log,
  socket write, timer, listener) and the handler is suspended.  On a client that is not
  connected the promise is already rejected, and the handler is queued for resumption.
\<close>

definition awaitLogin :: "loginStage \<Rightarrow> string list \<Rightarrow> session \<Rightarrow> session" where
  "awaitLogin st rest s =
     (case sendCommand (loginCommand s st) (sClient s) of
        (c, p) \<Rightarrow>
          if result p = Pending
          then s\<lparr> sClient := c, listeners := listeners s @ [Suspended st p rest] \<rparr>
          else s\<lparr> sClient := c, microtasks := microtasks s @ [Suspended st p rest] \<rparr>)"

text \<open>
  The loop over the complete lines of a chunk.  An empty line is skipped.  A line is
  logged and emitted; on a line with code 220 while the client is not authenticated the
  handler logs, sends \<open>USER\<close> and is suspended with the lines after it.
\<close>

fun handlerLoop :: "string list \<Rightarrow> session \<Rightarrow> session" where
  "handlerLoop [] s = s"
| "handlerLoop (line # rest) s =
     (if line = [] then handlerLoop rest s
      else let s1 = s\<lparr> sClient := debugMsg [''<<<'', line] (sClient s) \<rparr>;
               s2 = emitResponse line s1
           in if lineCode line = Num 220 \<and> \<not> authenticated (sClient s2)
              then awaitLogin UserSent rest
                     (s2\<lparr> sClient := debugMsg [''Authenticating...''] (sClient s2) \<rparr>)
              else handlerLoop rest s2)"

text \<open>
  The continuation of a suspended handler.  A rejected call leaves the \<open>try\<close> block:
  \<open>connect\<close> is rejected and the loop goes on.  After \<open>USER\<close> the handler sends
  \<open>PASS\<close> and is suspended again; after \<open>PASS\<close> the client is authenticated,
  \<open>connect\<close> is resolved and the loop goes on.  Only handlers whose call has settled
  are queued, so a pending call is never resumed.
\<close>

definition resumeHandler :: "suspended \<Rightarrow> session \<Rightarrow> session" where
  "resumeHandler h s =
     (case result (call h) of
        Pending \<Rightarrow> s
      | Rejected err \<Rightarrow>
          handlerLoop (remaining h) (s\<lparr> connectResult := settle (Rejected err) (connectResult s) \<rparr>)
      | Resolved r \<Rightarrow>
          (case stage h of
             UserSent \<Rightarrow> awaitLogin PassSent (remaining h) s
           | PassSent \<Rightarrow>
               handlerLoop (remaining h)
                 (s\<lparr> sClient := debugMsg [''Authentication successful'']
                                   ((sClient s)\<lparr> authenticated := True \<rparr>),
                     connectResult := settle (Resolved ()) (connectResult s) \<rparr>)))"

subsection \<open>The microtask queue\<close>

text \<open>
  After the handler of a chunk has returned, the queued continuations run until none is
  left.  Every continuation either awaits the next command of the login exchange or
  goes on with lines that its loop had left, so the weight below decreases.
\<close>

definition handlerWeight :: "suspended \<Rightarrow> nat" where
  "handlerWeight h = 2 * length (remaining h) + (case stage h of UserSent \<Rightarrow> 2 | PassSent \<Rightarrow> 1)"

definition sessionWeight :: "session \<Rightarrow> nat" where
  "sessionWeight s = sum_list (map handlerWeight (listeners s @ microtasks s))"


lemma notifyListeners_weight:
  "map handlerWeight (snd (notifyListeners cmd line hs c)) = map handlerWeight hs"
proof (induction hs arbitrary: c)
  case Nil
  show ?case by simp
next
  case (Cons h hs)
  obtain c1 p1 where a: "commandStep (cmd (stage h)) False (Response line) (c, call h) = (c1, p1)"
    by (cases "commandStep (cmd (stage h)) False (Response line) (c, call h)") auto
  obtain c2 hs' where b: "notifyListeners cmd line hs c1 = (c2, hs')"
    by (cases "notifyListeners cmd line hs c1") auto
  show ?case using Cons.IH [of c1] a b by (simp add: handlerWeight_def)
qed

lemma sum_list_partition:
  "sum_list (map f (filter P xs)) + sum_list (map f (filter (\<lambda>x. \<not> P x) xs))
     = (sum_list (map f xs) :: nat)"
  by (induction xs) auto

lemma emitResponse_weight: "sessionWeight (emitResponse line s) = sessionWeight s"
proof -
  obtain c hs where n: "notifyListeners (loginCommand s) line (listeners s) (sClient s) = (c, hs)"
    by (cases "notifyListeners (loginCommand s) line (listeners s) (sClient s)") auto
  have w: "map handlerWeight hs = map handlerWeight (listeners s)"
    using notifyListeners_weight [of "loginCommand s" line "listeners s" "sClient s"] n by simp
  have "sum_list (map handlerWeight (filter (\<lambda>h. result (call h) = Pending) hs))
        + sum_list (map handlerWeight (filter (\<lambda>h. result (call h) \<noteq> Pending) hs))
        = sum_list (map handlerWeight hs)"
    by (rule sum_list_partition)
  then show ?thesis
    using n w by (simp add: emitResponse_def sessionWeight_def)
qed

lemma awaitLogin_weight:
  "sessionWeight (awaitLogin st rest s)
     = sessionWeight s + 2 * length rest + (case st of UserSent \<Rightarrow> 2 | PassSent \<Rightarrow> 1)"
  by (auto simp: awaitLogin_def sessionWeight_def handlerWeight_def split: prod.splits)

lemma sessionWeight_sClient [simp]: "sessionWeight (s\<lparr> sClient := c \<rparr>) = sessionWeight s"
  by (simp add: sessionWeight_def)

lemma sessionWeight_connectResult [simp]:
  "sessionWeight (s\<lparr> connectResult := r \<rparr>) = sessionWeight s"
  by (simp add: sessionWeight_def)

lemma handlerLoop_empty_line: "handlerLoop ([] # rest) s = handlerLoop rest s"
  by simp

lemma handlerLoop_greeting:
  assumes "line \<noteq> []"
    and "s2 = emitResponse line (s\<lparr> sClient := debugMsg [''<<<'', line] (sClient s) \<rparr>)"
    and "lineCode line = Num 220" and "\<not> authenticated (sClient s2)"
  shows "handlerLoop (line # rest) s
           = awaitLogin UserSent rest (s2\<lparr> sClient := debugMsg [''Authenticating...''] (sClient s2) \<rparr>)"
  unfolding handlerLoop.simps Let_def using assms by simp

lemma handlerLoop_other:
  assumes "line \<noteq> []"
    and "s2 = emitResponse line (s\<lparr> sClient := debugMsg [''<<<'', line] (sClient s) \<rparr>)"
    and "lineCode line \<noteq> Num 220 \<or> authenticated (sClient s2)"
  shows "handlerLoop (line # rest) s = handlerLoop rest s2"
  unfolding handlerLoop.simps Let_def using assms by auto

declare handlerLoop.simps(2) [simp del]

lemma handlerLoop_weight: "sessionWeight (handlerLoop ls s) \<le> sessionWeight s + 2 * length ls"
proof (induction ls arbitrary: s)
  case Nil
  show ?case by simp
next
  case (Cons line rest)
  show ?case
  proof (cases "line = []")
    case True
    then show ?thesis using Cons.IH [of s] by (simp add: handlerLoop_empty_line)
  next
    case False
    define s2 where "s2 = emitResponse line (s\<lparr> sClient := debugMsg [''<<<'', line] (sClient s) \<rparr>)"
    have w2: "sessionWeight s2 = sessionWeight s"
      unfolding s2_def by (simp add: emitResponse_weight)
    show ?thesis
    proof (cases "lineCode line = Num 220 \<and> \<not> authenticated (sClient s2)")
      case True
      have "handlerLoop (line # rest) s
              = awaitLogin UserSent rest (s2\<lparr> sClient := debugMsg [''Authenticating...''] (sClient s2) \<rparr>)"
        using handlerLoop_greeting [OF False s2_def] True by simp
      then show ?thesis
        using w2 by (simp add: awaitLogin_weight)
    next
      case False
      then have "handlerLoop (line # rest) s = handlerLoop rest s2"
        using handlerLoop_other [OF \<open>line \<noteq> []\<close> s2_def] by blast
      then show ?thesis using Cons.IH [of s2] w2 by simp
    qed
  qed
qed

lemma resumeHandler_weight:
  "sessionWeight (resumeHandler h s) < sessionWeight s + handlerWeight h"
proof (cases "result (call h)")
  case Pending
  then show ?thesis
    by (cases "stage h") (simp_all add: resumeHandler_def handlerWeight_def)
next
  case (Resolved r)
  show ?thesis
  proof (cases "stage h")
    case UserSent
    then show ?thesis
      using Resolved by (simp add: resumeHandler_def handlerWeight_def awaitLogin_weight)
  next
    case PassSent
    let ?s1 = "s\<lparr> sClient := debugMsg [''Authentication successful'']
                                   ((sClient s)\<lparr> authenticated := True \<rparr>),
                     connectResult := settle (Resolved ()) (connectResult s) \<rparr>"
    have "sessionWeight (handlerLoop (remaining h) ?s1) \<le> sessionWeight ?s1 + 2 * length (remaining h)"
      by (rule handlerLoop_weight)
    then show ?thesis
      using Resolved PassSent by (simp add: resumeHandler_def handlerWeight_def)
  qed
next
  case (Rejected err)
  let ?s1 = "s\<lparr> connectResult := settle (Rejected err) (connectResult s) \<rparr>"
  have "sessionWeight (handlerLoop (remaining h) ?s1) \<le> sessionWeight ?s1 + 2 * length (remaining h)"
    by (rule handlerLoop_weight)
  then show ?thesis
    using Rejected by (cases "stage h") (simp_all add: resumeHandler_def handlerWeight_def)
qed

function runMicrotasks :: "session \<Rightarrow> session" where
  "runMicrotasks s =
     (case microtasks s of
        [] \<Rightarrow> s
      | h # hs \<Rightarrow> runMicrotasks (resumeHandler h (s\<lparr> microtasks := hs \<rparr>)))"
  by pat_completeness auto

termination
proof (relation "measure sessionWeight", goal_cases)
  case 1
  show ?case by simp
next
  case (2 s h hs)
  have "sessionWeight s = sessionWeight (s\<lparr> microtasks := hs \<rparr>) + handlerWeight h"
    using 2 by (simp add: sessionWeight_def)
  then show ?case
    using resumeHandler_weight [of h "s\<lparr> microtasks := hs \<rparr>"] by simp
qed

declare runMicrotasks.simps [simp del]

text \<open>
  One \<open>data\<close> event: the chunk is appended to the buffer, the buffer is split, the last
  segment is kept as the new buffer, and the loop runs over the other segments; then
  the microtasks run.  A run of the session is a sequence of \<open>data\<close> events: between
  them no command timer fires and the socket does not close.
\<close>

definition socketData :: "string \<Rightarrow> session \<Rightarrow> session" where
  "socketData data s =
     (let buf = buffer (sClient s) @ data;
          lines = splitCRLF buf;
          s1 = s\<lparr> sClient := (sClient s)\<lparr> buffer := last lines \<rparr> \<rparr>
      in runMicrotasks (handlerLoop (butlast lines) s1))"

fun socketDataAll :: "string list \<Rightarrow> session \<Rightarrow> session" where
  "socketDataAll [] s = s"
| "socketDataAll (data # later) s = socketDataAll later (socketData data s)"

text \<open>
  Two conditions on a run.  \<open>loopsFinished\<close>: no suspended handler has lines of its chunk
  left.  \<open>greetingsLast\<close>: in every chunk, a line with code 220 is the last complete line
  that the chunk delivers.
\<close>

definition loopsFinished :: "session \<Rightarrow> bool" where
  "loopsFinished s = (\<forall>h \<in> set (listeners s @ microtasks s). remaining h = [])"



section \<open>Passive mode: the reply pattern\<close>

text \<open>
  The regular expression \<open>/\((\d+),(\d+),(\d+),(\d+),(\d+),(\d+)\)/\<close> of
  \<open>enterPassiveMode\<close> and \<open>parsePasvResponse\<close>.  \<open>\d\<close> is an ASCII digit.  Each
  \<open>\d+\<close> is followed by a character that is not a digit, so the greedy run of digits is
  the only candidate and no backtracking can find another match at the same start.
  \<open>match\<close> returns the match at the leftmost start position.
\<close>

definition isDigit :: "char \<Rightarrow> bool" where
  "isDigit c = (48 \<le> (of_char c :: nat) \<and> (of_char c :: nat) \<le> 57)"

definition digitGroup :: "string \<Rightarrow> (string \<times> string) option" where
  "digitGroup s =
     (let ds = takeWhile isDigit s
      in if ds = [] then None else Some (ds, dropWhile isDigit s))"

definition expectChar :: "char \<Rightarrow> string \<Rightarrow> string option" where
  "expectChar ch s = (case s of [] \<Rightarrow> None | c # rest \<Rightarrow> if c = ch then Some rest else None)"

definition groupThen :: "char \<Rightarrow> string \<Rightarrow> (string \<times> string) option" where
  "groupThen ch s =
     (case digitGroup s of
        None \<Rightarrow> None
      | Some (ds, rest) \<Rightarrow>
          (case expectChar ch rest of None \<Rightarrow> None | Some rest' \<Rightarrow> Some (ds, rest')))"

definition pasvMatchAt ::
  "string \<Rightarrow> (string \<times> string \<times> string \<times> string \<times> string \<times> string) option" where
  "pasvMatchAt s =
     (case expectChar CHR ''('' s of None \<Rightarrow> None | Some r0 \<Rightarrow>
      case groupThen CHR '','' r0 of None \<Rightarrow> None | Some (m1, r1) \<Rightarrow>
      case groupThen CHR '','' r1 of None \<Rightarrow> None | Some (m2, r2) \<Rightarrow>
      case groupThen CHR '','' r2 of None \<Rightarrow> None | Some (m3, r3) \<Rightarrow>
      case groupThen CHR '','' r3 of None \<Rightarrow> None | Some (m4, r4) \<Rightarrow>
      case groupThen CHR '','' r4 of None \<Rightarrow> None | Some (m5, r5) \<Rightarrow>
      case groupThen CHR '')'' r5 of None \<Rightarrow> None | Some (m6, r6) \<Rightarrow>
        Some (m1, m2, m3, m4, m5, m6))"

fun pasvMatch ::
  "string \<Rightarrow> (string \<times> string \<times> string \<times> string \<times> string \<times> string) option" where
  "pasvMatch [] = None"
| "pasvMatch (c # cs) =
     (case pasvMatchAt (c # cs) of Some m \<Rightarrow> Some m | None \<Rightarrow> pasvMatch cs)"

record endpoint =
  host :: string
  port :: jsnum

definition parsePasvResponse :: "string \<Rightarrow> error + endpoint" where
  "parsePasvResponse msg =
     (case pasvMatch msg of
        None \<Rightarrow> Inl (Error ''Failed to parse PASV response'')
      | Some (m1, m2, m3, m4, m5, m6) \<Rightarrow>
          Inr \<lparr> host = m1 @ ''.'' @ m2 @ ''.'' @ m3 @ ''.'' @ m4,
                port = jsAdd (jsMul (parseInt m5) (Num 256)) (parseInt m6) \<rparr>)"

text \<open>
  The pattern \<open>(a,b,c,d,p1,p2)\<close> in the words of the specification: six non-empty runs
  of decimal digits, separated by commas, between parentheses.  A message contains the
  pattern when some such text occurs in it.
\<close>

definition digitString :: "string \<Rightarrow> bool" where
  "digitString ds = (ds \<noteq> [] \<and> (\<forall>c \<in> set ds. isDigit c))"

fun pasvGroups :: "string \<times> string \<times> string \<times> string \<times> string \<times> string \<Rightarrow> bool" where
  "pasvGroups (a, b, c, d, p1, p2) =
     (digitString a \<and> digitString b \<and> digitString c \<and> digitString d
      \<and> digitString p1 \<and> digitString p2)"

fun pasvText :: "string \<times> string \<times> string \<times> string \<times> string \<times> string \<Rightarrow> string" where
  "pasvText (a, b, c, d, p1, p2) =
     ''('' @ a @ '','' @ b @ '','' @ c @ '','' @ d @ '','' @ p1 @ '','' @ p2 @ '')''"

definition containsPasvPattern :: "string \<Rightarrow> bool" where
  "containsPasvPattern msg = (\<exists>pre g post. msg = pre @ pasvText g @ post \<and> pasvGroups g)"

section \<open>Awaiting a command\<close>

text \<open>
  The other end of the control channel.  For a command written on the socket, in the
  server's current state, it gives the events that reach the pending call afterwards
  (the response lines in the order of their emission, and the deadline if the timer
  runs out) and the server's next state.  An \<open>await\<close> of a promise that never settles
  never returns: the awaiting function stays \<open>Pending\<close>.
\<close>

type_synonym 'st server = "'st \<Rightarrow> string \<Rightarrow> event list \<times> 'st"

definition awaitCommand ::
  "'st server \<Rightarrow> string \<Rightarrow> bool \<Rightarrow> client \<times> 'st \<Rightarrow> reply promise \<times> client \<times> 'st" where
  "awaitCommand srv command allowPreliminary = (\<lambda>(c, st).
     if \<not> connected c then (result (snd (sendCommand command c)), fst (sendCommand command c), st)
     else let (evs, st') = srv st command;
              s = commandRun command allowPreliminary evs (sendCommand command c)
          in (result (snd s), fst s, st'))"

definition enterPassiveMode ::
  "'st server \<Rightarrow> client \<times> 'st \<Rightarrow> endpoint promise \<times> client \<times> 'st" where
  "enterPassiveMode srv cs =
     (case awaitCommand srv ''PASV'' False cs of
        (Pending, cs') \<Rightarrow> (Pending, cs')
      | (Rejected err, cs') \<Rightarrow> (Rejected err, cs')
      | (Resolved response, cs') \<Rightarrow>
          (case pasvMatch (text_message response) of
             None \<Rightarrow> (Rejected (Error ''Failed to parse PASV response''), cs')
           | Some (m1, m2, m3, m4, m5, m6) \<Rightarrow>
               (Resolved \<lparr> host = m1 @ ''.'' @ m2 @ ''.'' @ m3 @ ''.'' @ m4,
                            port = jsAdd (jsMul (parseInt m5) (Num 256)) (parseInt m6) \<rparr>,
                cs')))"

section \<open>commands.js\<close>

definition debugState :: "string list \<Rightarrow> client \<times> 'st \<Rightarrow> client \<times> 'st" where
  "debugState args = (\<lambda>(c, st). (debugMsg args c, st))"

definition cd :: "'st server \<Rightarrow> string \<Rightarrow> client \<times> 'st \<Rightarrow> unit promise \<times> client \<times> 'st" where
  "cd srv path cs =
     (case awaitCommand srv (''CWD '' @ path) False cs of
        (Pending, cs') \<Rightarrow> (Pending, cs')
      | (Rejected err, cs') \<Rightarrow> (Rejected err, cs')
      | (Resolved response, cs') \<Rightarrow> (Resolved (), cs'))"

definition mkdir :: "'st server \<Rightarrow> string \<Rightarrow> client \<times> 'st \<Rightarrow> unit promise \<times> client \<times> 'st" where
  "mkdir srv path cs =
     (case awaitCommand srv (''MKD '' @ path) False cs of
        (Pending, cs') \<Rightarrow> (Pending, cs')
      | (Rejected err, cs') \<Rightarrow> (Rejected err, cs')
      | (Resolved response, cs') \<Rightarrow> (Resolved (), cs'))"

definition size_cmd :: "'st server \<Rightarrow> string \<Rightarrow> client \<times> 'st \<Rightarrow> jsnum promise \<times> client \<times> 'st" where
  "size_cmd srv path cs =
     (case awaitCommand srv (''SIZE '' @ path) False
             (debugState [''Getting size of '' @ path] cs) of
        (Pending, cs') \<Rightarrow> (Pending, cs')
      | (Rejected err, cs') \<Rightarrow> (Rejected err, cs')
      | (Resolved response, cs') \<Rightarrow> (Resolved (parseInt (text_message response)), cs'))"

text \<open>\<open>exists\<close>: the \<open>try\<close> returns true, the \<open>catch\<close> returns false for any error.\<close>

definition exists_cmd :: "'st server \<Rightarrow> string \<Rightarrow> client \<times> 'st \<Rightarrow> bool promise \<times> client \<times> 'st" where
  "exists_cmd srv path cs =
     (case size_cmd srv path cs of
        (Pending, cs') \<Rightarrow> (Pending, cs')
      | (Rejected err, cs') \<Rightarrow> (Resolved False, cs')
      | (Resolved n, cs') \<Rightarrow> (Resolved True, cs'))"

subsection \<open>ensureDir\<close>

text \<open>\<open>normalizePath\<close>: \<open>path.replace(/\\/g, '/').replace(/\/+/g, '/')\<close>.\<close>

fun collapseSlashes :: "string \<Rightarrow> string" where
  "collapseSlashes [] = []"
| "collapseSlashes [c] = [c]"
| "collapseSlashes (c # d # cs) =
     (if c = CHR ''/'' \<and> d = CHR ''/'' then collapseSlashes (d # cs)
      else c # collapseSlashes (d # cs))"

definition normalizePath :: "string \<Rightarrow> string" where
  "normalizePath path = collapseSlashes (map (\<lambda>c. if c = CHR 0x5C then CHR ''/'' else c) path)"

text \<open>\<open>normalized.substring(0, normalized.lastIndexOf('/')) || '/'\<close>.\<close>

definition parentDirOf :: "string \<Rightarrow> string" where
  "parentDirOf normalized =
     (let p = substring normalized 0 (lastIndexOf normalized CHR ''/'')
      in if p = [] then ''/'' else p)"

text \<open>The last \<open>try\<close> of \<open>ensureDir\<close>: create the directory, and look at the error text.\<close>

definition ensureDirCreate ::
  "'st server \<Rightarrow> string \<Rightarrow> client \<times> 'st \<Rightarrow> unit promise \<times> client \<times> 'st" where
  "ensureDirCreate srv normalized cs =
     (case mkdir srv normalized cs of
        (Pending, cs') \<Rightarrow> (Pending, cs')
      | (Resolved u, cs') \<Rightarrow> (Resolved (), debugState [''Created directory: '' @ normalized] cs')
      | (Rejected err, cs') \<Rightarrow>
          if \<not> includesStr (message err) ''550'' \<and> \<not> includesStr (message err) ''exists''
          then (Rejected err, cs')
          else (Resolved (), cs'))"

lemma length_collapseSlashes: "length (collapseSlashes s) \<le> length s"
  by (induction s rule: collapseSlashes.induct) auto

lemma length_normalizePath: "length (normalizePath path) \<le> length path"
  using length_collapseSlashes [of "map (\<lambda>c. if c = CHR 0x5C then CHR ''/'' else c) path"]
  by (simp add: normalizePath_def)

lemma lastIndexOf_less: "lastIndexOf s ch < int (length s)"
  by (induction s) (auto simp: Let_def)

lemma length_parentDirOf:
  "parentDirOf normalized \<noteq> ''/'' \<Longrightarrow> length (parentDirOf normalized) < length normalized"
  using lastIndexOf_less [of normalized "CHR ''/''"]
  by (auto simp: parentDirOf_def substring_def clampIndex_def Let_def split: if_splits)

function ensureDir ::
  "'st server \<Rightarrow> string \<Rightarrow> bool \<Rightarrow> client \<times> 'st \<Rightarrow> unit promise \<times> client \<times> 'st" where
  "ensureDir srv dirPath recursive cs =
     (let cs0 = debugState [''Ensuring directory exists: '' @ dirPath] cs;
          normalized = normalizePath dirPath
      in if normalized = ''/'' \<or> normalized = ''.'' then (Resolved (), cs0)
         else (case cd srv normalized cs0 of
                 (Pending, cs1) \<Rightarrow> (Pending, cs1)
               | (Resolved u, cs1) \<Rightarrow>
                   (Resolved (), debugState [''Directory already exists: '' @ normalized] cs1)
               | (Rejected err, cs1) \<Rightarrow>
                   (let cs2 = debugState [''Directory doesn't exist: '' @ normalized] cs1;
                        parentDir = parentDirOf normalized
                    in if recursive \<and> parentDir \<noteq> ''/'' \<and> parentDir \<noteq> ''.''
                       then (case ensureDir srv parentDir True cs2 of
                               (Resolved u, cs3) \<Rightarrow> ensureDirCreate srv normalized cs3
                             | (Pending, cs3) \<Rightarrow> (Pending, cs3)
                             | (Rejected err', cs3) \<Rightarrow> (Rejected err', cs3))
                       else ensureDirCreate srv normalized cs2)))"
  by pat_completeness auto
termination
proof (relation "measure (\<lambda>(srv, dirPath, recursive, cs). length dirPath)", goal_cases)
  case 1
  show ?case by simp
next
  case (2 srv dirPath recursive cs cs0 normalized r cs1 err cs2 parentDir)
  have "length (parentDirOf (normalizePath dirPath)) < length dirPath"
    using 2 length_parentDirOf [of "normalizePath dirPath"] length_normalizePath [of dirPath]
    by simp
  then show ?case using 2 by simp
qed

declare ensureDir.simps [simp del]

subsection \<open>Transfers: upload, download, list\<close>

text \<open>
  The three methods share one skeleton and differ in the command they send, in what
  they do with the data socket, and in a few branches of the handlers; \<open>transferKind\<close>
  names the method, and \<open>Upload\<close> carries the buffer to send.  A download resolves with
  the bytes received, a listing with their text (the model keeps the bytes), an upload
  with no value.
\<close>

datatype transferKind = Upload string | Download | Listing

datatype payload = Undefined | Bytes string | Text string

text \<open>
  What the promise of a transfer owns: the call of \<open>sendCommand\<close> made when the data
  socket connects, the flag \<open>commandSent\<close>, the chunks received, what was written on the
  data socket, whether \<open>finalHandler\<close> is subscribed to the \<open>response\<close> event, whether
  the fallback timer of the \<open>close\<close> handler is running, and the state of the promise.
\<close>

record transfer =
  tClient :: client
  tCommand :: pending
  commandSent :: bool
  dataChunks :: "string list"
  dataWritten :: "string list"
  dataEnded :: bool
  finalHandlerOn :: bool
  fallbackArmed :: bool
  outcome :: "payload promise"

definition transferStart :: "client \<Rightarrow> transfer" where
  "transferStart c =
     \<lparr> tClient = c,
       tCommand = \<lparr> timerArmed = False, subscribed = False, result = Pending \<rparr>,
       commandSent = False, dataChunks = [], dataWritten = [], dataEnded = False,
       finalHandlerOn = False, fallbackArmed = False, outcome = Pending \<rparr>"

datatype transferEvent =
    DataConnected | DataChunk string | DataError error | DataClosed
  | ControlResponse string | CommandDeadline | FallbackElapsed

definition transferCommand :: "transferKind \<Rightarrow> string \<Rightarrow> string" where
  "transferCommand kind path =
     (case kind of Upload data \<Rightarrow> ''STOR '' @ path
                 | Download \<Rightarrow> ''RETR '' @ path
                 | Listing \<Rightarrow> ''LIST '' @ path)"

text \<open>\<open>sendCommand(...).catch(reject)\<close>: a rejection of the command rejects the transfer.\<close>

definition propagateCommand :: "transfer \<Rightarrow> transfer" where
  "propagateCommand t =
     (case result (tCommand t) of
        Rejected err \<Rightarrow> t\<lparr> outcome := settle (Rejected err) (outcome t) \<rparr>
      | Pending \<Rightarrow> t
      | Resolved r \<Rightarrow> t)"

text \<open>The callback of \<open>net.createConnection\<close>.\<close>

definition dataConnected :: "transferKind \<Rightarrow> string \<Rightarrow> transfer \<Rightarrow> transfer" where
  "dataConnected kind path t =
     (if commandSent t then t
      else let c1 = (case kind of
                       Upload data \<Rightarrow> debugMsg [''Data connection established for upload''] (tClient t)
                     | Download \<Rightarrow> debugMsg [''Data connection established for download''] (tClient t)
                     | Listing \<Rightarrow> tClient t);
               s = sendCommand (transferCommand kind path) c1;
               t1 = propagateCommand (t\<lparr> commandSent := True, tClient := fst s, tCommand := snd s \<rparr>)
           in (case kind of
                 Upload data \<Rightarrow> t1\<lparr> dataWritten := dataWritten t1 @ [data], dataEnded := True \<rparr>
               | Download \<Rightarrow> t1
               | Listing \<Rightarrow> t1))"

text \<open>The \<open>data\<close> handler of the data socket; \<open>upload\<close> has none.\<close>

definition dataChunk :: "transferKind \<Rightarrow> string \<Rightarrow> transfer \<Rightarrow> transfer" where
  "dataChunk kind chunk t =
     (case kind of
        Upload data \<Rightarrow> t
      | Download \<Rightarrow>
          t\<lparr> dataChunks := dataChunks t @ [chunk],
             tClient := debugMsg [''Received '' @ natToString (length chunk) @ '' bytes''] (tClient t) \<rparr>
      | Listing \<Rightarrow> t\<lparr> dataChunks := dataChunks t @ [chunk] \<rparr>)"

text \<open>
  \<open>finalHandler\<close>, subscribed by the \<open>close\<close> handler.  It does not test the fourth
  character of the line.  The one of \<open>list\<close> has no branch for an error code.
\<close>

definition finalHandler :: "transferKind \<Rightarrow> string \<Rightarrow> transfer \<Rightarrow> transfer" where
  "finalHandler kind line t =
     (if lineCode line = Num 226 \<or> lineCode line = Num 250 then
        (case kind of
           Upload data \<Rightarrow>
             t\<lparr> finalHandlerOn := False,
                tClient := debugMsg [''Upload completed successfully''] (tClient t),
                outcome := settle (Resolved Undefined) (outcome t) \<rparr>
         | Download \<Rightarrow>
             t\<lparr> finalHandlerOn := False,
                tClient := debugMsg [''Download completed: ''
                              @ natToString (length (concat (dataChunks t))) @ '' bytes''] (tClient t),
                outcome := settle (Resolved (Bytes (concat (dataChunks t)))) (outcome t) \<rparr>
         | Listing \<Rightarrow>
             t\<lparr> finalHandlerOn := False,
                outcome := settle (Resolved (Text (concat (dataChunks t)))) (outcome t) \<rparr>)
      else if jsGe (lineCode line) 400 \<and> kind \<noteq> Listing then
        t\<lparr> finalHandlerOn := False,
           outcome := settle (Rejected (Error (''FTP Error '' @ numToString (lineCode line) @ '': ''
                                          @ substringFrom line 4))) (outcome t) \<rparr>
      else t)"

text \<open>
  The callback of the timer that the \<open>close\<close> handler sets (5000 ms; 3000 ms in
  \<open>list\<close>).  The one of \<open>download\<close> resolves only if a chunk was received.
\<close>

definition fallbackTimer :: "transferKind \<Rightarrow> transfer \<Rightarrow> transfer" where
  "fallbackTimer kind t =
     (case kind of
        Upload data \<Rightarrow>
          t\<lparr> finalHandlerOn := False, fallbackArmed := False,
             outcome := settle (Resolved Undefined) (outcome t) \<rparr>
      | Download \<Rightarrow>
          if dataChunks t \<noteq> []
          then t\<lparr> finalHandlerOn := False, fallbackArmed := False,
                  outcome := settle (Resolved (Bytes (concat (dataChunks t)))) (outcome t) \<rparr>
          else t\<lparr> finalHandlerOn := False, fallbackArmed := False \<rparr>
      | Listing \<Rightarrow>
          t\<lparr> finalHandlerOn := False, fallbackArmed := False,
             outcome := settle (Resolved (Text (concat (dataChunks t)))) (outcome t) \<rparr>)"

text \<open>An event of the control channel, given to the call of \<open>sendCommand\<close>.\<close>

definition commandEvent :: "transferKind \<Rightarrow> string \<Rightarrow> event \<Rightarrow> transfer \<Rightarrow> transfer" where
  "commandEvent kind path ev t =
     (case commandStep (transferCommand kind path) True ev (tClient t, tCommand t) of
        (c, p) \<Rightarrow> t\<lparr> tClient := c, tCommand := p \<rparr>)"

text \<open>
  One event of a transfer.  A response line goes to the listeners in the order of their
  subscription, the handler of the command first and \<open>finalHandler\<close> second; the
  \<open>catch\<close> of the command runs after them.
\<close>

definition transferStep :: "transferKind \<Rightarrow> string \<Rightarrow> transferEvent \<Rightarrow> transfer \<Rightarrow> transfer" where
  "transferStep kind path ev t =
     (case ev of
        DataConnected \<Rightarrow> dataConnected kind path t
      | DataChunk chunk \<Rightarrow> dataChunk kind chunk t
      | DataError err \<Rightarrow> t\<lparr> outcome := settle (Rejected err) (outcome t) \<rparr>
      | DataClosed \<Rightarrow> t\<lparr> finalHandlerOn := True, fallbackArmed := True \<rparr>
      | ControlResponse line \<Rightarrow>
          propagateCommand
            (if finalHandlerOn t
             then finalHandler kind line (commandEvent kind path (Response line) t)
             else commandEvent kind path (Response line) t)
      | CommandDeadline \<Rightarrow> propagateCommand (commandEvent kind path Deadline t)
      | FallbackElapsed \<Rightarrow> if fallbackArmed t then fallbackTimer kind t else t)"

definition transferRun ::
  "transferKind \<Rightarrow> string \<Rightarrow> transferEvent list \<Rightarrow> transfer \<Rightarrow> transfer" where
  "transferRun kind path evs t = foldl (\<lambda>t ev. transferStep kind path ev t) t evs"

text \<open>
  The methods: the passive-mode negotiation, then the promise, settled by the events
  that follow the creation of the data socket.
\<close>

definition runTransfer ::
  "'st server \<Rightarrow> transferKind \<Rightarrow> string \<Rightarrow> transferEvent list \<Rightarrow> client \<times> 'st
     \<Rightarrow> payload promise \<times> client \<times> 'st" where
  "runTransfer srv kind path evs cs =
     (case enterPassiveMode srv cs of
        (Pending, cs') \<Rightarrow> (Pending, cs')
      | (Rejected err, cs') \<Rightarrow> (Rejected err, cs')
      | (Resolved ep, (c, st)) \<Rightarrow>
          (case transferRun kind path evs (transferStart c) of
             t \<Rightarrow> (outcome t, tClient t, st)))"

definition upload ::
  "'st server \<Rightarrow> string \<Rightarrow> string \<Rightarrow> transferEvent list \<Rightarrow> client \<times> 'st
     \<Rightarrow> payload promise \<times> client \<times> 'st" where
  "upload srv data remotePath evs cs =
     runTransfer srv (Upload data) remotePath evs
       (debugState [''Uploading '' @ natToString (length data) @ '' bytes to '' @ remotePath] cs)"

definition download ::
  "'st server \<Rightarrow> string \<Rightarrow> transferEvent list \<Rightarrow> client \<times> 'st
     \<Rightarrow> payload promise \<times> client \<times> 'st" where
  "download srv remotePath evs cs =
     runTransfer srv Download remotePath evs (debugState [''Downloading '' @ remotePath] cs)"

definition list_cmd ::
  "'st server \<Rightarrow> string \<Rightarrow> transferEvent list \<Rightarrow> client \<times> 'st
     \<Rightarrow> payload promise \<times> client \<times> 'st" where
  "list_cmd srv path evs cs =
     runTransfer srv Listing path evs (debugState [''Listing directory: '' @ path] cs)"

text \<open>
  A response line that settles nothing: it is no terminal reply for \<open>finalHandler\<close>
  (226, 250 or a code from 400), and it does not make the transfer command reject (a
  final line with a code below 100 or no code would).
\<close>

definition quietLine :: "string \<Rightarrow> bool" where
  "quietLine line =
     (lineCode line \<noteq> Num 226 \<and> lineCode line \<noteq> Num 250 \<and> \<not> jsGe (lineCode line) 400
      \<and> (isFinalLine line \<longrightarrow> jsGe (lineCode line) 100))"

text \<open>
  Two properties of the state of a transfer, used as invariants: a rejection of the
  command has reached the promise of the transfer; and the close handler is waiting.
\<close>

definition commandPropagated :: "transfer \<Rightarrow> bool" where
  "commandPropagated t = (\<forall>err. result (tCommand t) = Rejected err \<longrightarrow> outcome t \<noteq> Pending)"

definition awaitingFinal :: "transfer \<Rightarrow> bool" where
  "awaitingFinal t =
     (fallbackArmed t \<and> outcome t = Pending \<and> (\<forall>err. result (tCommand t) \<noteq> Rejected err))"

text \<open>The inverse of \<open>split\<close>: the segments joined by the separator.\<close>

fun joinCRLF :: "string list \<Rightarrow> string" where
  "joinCRLF [] = []"
| "joinCRLF [seg] = seg"
| "joinCRLF (seg # seg' # segs) = seg @ CRLF @ joinCRLF (seg' # segs)"

text \<open>
  ``Its error text indicates the directory already exists (a 550-class reply with that
  semantic)'', in the words of the specification: the error of a reply with code 550
  whose message says that the directory exists.
\<close>

definition indicatesAlreadyExists :: "error \<Rightarrow> bool" where
  "indicatesAlreadyExists err =
     (startsWith (message err) ''FTP Error 550: '' \<and> includesStr (message err) ''exists'')"

section \<open>Example inputs\<close>

definition connectedClient :: client where
  "connectedClient = (newClient False)\<lparr> connected := True, authenticated := True \<rparr>"

text \<open>A client whose socket has connected and that has not logged in yet.\<close>

definition loginClient :: client where
  "loginClient = (newClient False)\<lparr> connected := True \<rparr>"

text \<open>A server that answers every command with the same response lines.\<close>

definition replyServer :: "string list \<Rightarrow> unit server" where
  "replyServer lines = (\<lambda>st command. (map Response lines, st))"

text \<open>A server after which the given events reach the pending call.\<close>

definition eventServer :: "event list \<Rightarrow> unit server" where
  "eventServer evs = (\<lambda>st command. (evs, st))"

text \<open>
  A server that keeps the list of the directories that exist: \<open>CWD\<close> succeeds on an
  existing directory, \<open>MKD\<close> creates a directory that does not exist yet.
\<close>

definition dirServer :: "string list server" where
  "dirServer dirs command =
     (if startsWith command ''CWD '' then
        (if drop 4 command \<in> set dirs then ([Response ''250 Directory changed''], dirs)
         else ([Response ''550 No such directory''], dirs))
      else if startsWith command ''MKD '' then
        (if drop 4 command \<in> set dirs then ([Response ''550 Directory already exists''], dirs)
         else ([Response ''257 Directory created''], drop 4 command # dirs))
      else ([Response ''502 Command not implemented''], dirs))"

section \<open>Properties of sendCommand\<close>

lemma debugMsg_fields [simp]:
  "connected (debugMsg a c) = connected c"
  "authenticated (debugMsg a c) = authenticated c"
  "buffer (debugMsg a c) = buffer c"
  "debug (debugMsg a c) = debug c"
  "commandCount (debugMsg a c) = commandCount c"
  "lastCommand (debugMsg a c) = lastCommand c"
  "socketWritten (debugMsg a c) = socketWritten c"
  by (simp_all add: debugMsg_def)

lemma connected_connectedClient: "connected connectedClient"
  by (simp add: connectedClient_def newClient_def)

lemma lineCode_150: "lineCode ''150 Opening'' = Num 150"
  by code_simp

lemma lineCode_226: "lineCode ''226 Transfer complete'' = Num 226"
  by code_simp

lemma responseHandler_waiting:
  assumes "\<not> isFinalLine l \<or> (ap \<and> jsGe (lineCode l) 100 \<and> jsLt (lineCode l) 200)"
    and "subscribed (snd s)" and "result (snd s) = Pending"
  shows "subscribed (snd (responseHandler ap l s)) \<and> result (snd (responseHandler ap l s)) = Pending
     \<and> \<not> timerArmed (snd (responseHandler ap l s))"
  using assms by (cases s) (auto simp: responseHandler_def Let_def)

lemma commandRun_waiting:
  assumes "\<forall>l \<in> set ls. \<not> isFinalLine l \<or> (ap \<and> jsGe (lineCode l) 100 \<and> jsLt (lineCode l) 200)"
    and "subscribed (snd s)" and "result (snd s) = Pending"
  shows "subscribed (snd (commandRun cmd ap (map Response ls) s))
     \<and> result (snd (commandRun cmd ap (map Response ls) s)) = Pending"
  using assms
proof (induction ls arbitrary: s)
  case Nil
  then show ?case by (simp add: commandRun_def)
next
  case (Cons l ls)
  have step: "commandStep cmd ap (Response l) s = responseHandler ap l s"
    using Cons.prems(2) by (simp add: commandStep_def)
  have w: "subscribed (snd (responseHandler ap l s)) \<and> result (snd (responseHandler ap l s)) = Pending"
    using responseHandler_waiting [of l ap s] Cons.prems by simp
  have "commandRun cmd ap (map Response (l # ls)) s
        = commandRun cmd ap (map Response ls) (responseHandler ap l s)"
    using step by (simp add: commandRun_def)
  with Cons.IH [of "responseHandler ap l s"] Cons.prems(1) w show ?case by simp
qed

lemma responseHandler_final:
  assumes "isFinalLine line" and "subscribed (snd s)" and "result (snd s) = Pending"
  shows "result (snd (responseHandler ap line s)) =
      (if jsGe (lineCode line) 100 \<and> jsLt (lineCode line) 200 \<and> ap then Pending
       else if jsGe (lineCode line) 200 \<and> jsLt (lineCode line) 400
         then Resolved \<lparr> code = lineCode line, text_message = drop 4 line, raw = line \<rparr>
       else Rejected (Error (''FTP Error '' @ numToString (lineCode line) @ '': '' @ drop 4 line)))
    \<and> subscribed (snd (responseHandler ap line s))
        = (jsGe (lineCode line) 100 \<and> jsLt (lineCode line) 200 \<and> ap)"
  using assms by (cases s) (auto simp: responseHandler_def Let_def settle_def substringFrom_def)

text \<open>
  C1.  A call made on a connected client has received only continuation lines and
  allowed preliminary replies so far, and now a final line (fourth character a space)
  arrives.  With a code in [100,200) and \<open>allowPreliminary\<close> the call stays pending and
  subscribed, so only a later final reply settles it; otherwise it resolves with
  \<open>{code, message, raw}\<close> when the code is in [200,400) and rejects with
  \<open>FTP Error <code>: <message>\<close> in every other case (code at least 400, below 200,
  or not a number).
\<close>

theorem sendCommand_final_reply:
  assumes "connected c"
    and "\<forall>l \<in> set earlier. \<not> isFinalLine l
           \<or> (allowPreliminary \<and> jsGe (lineCode l) 100 \<and> jsLt (lineCode l) 200)"
    and "isFinalLine line"
  shows "(let s = commandRun command allowPreliminary (map Response (earlier @ [line]))
                    (sendCommand command c)
          in result (snd s) =
              (if jsGe (lineCode line) 100 \<and> jsLt (lineCode line) 200 \<and> allowPreliminary
               then Pending
               else if jsGe (lineCode line) 200 \<and> jsLt (lineCode line) 400
                 then Resolved \<lparr> code = lineCode line, text_message = drop 4 line, raw = line \<rparr>
               else Rejected (Error (''FTP Error '' @ numToString (lineCode line) @ '': ''
                                       @ drop 4 line)))
            \<and> subscribed (snd s)
                = (jsGe (lineCode line) 100 \<and> jsLt (lineCode line) 200 \<and> allowPreliminary))"
proof -
  let ?s0 = "sendCommand command c"
  let ?s1 = "commandRun command allowPreliminary (map Response earlier) ?s0"
  have init: "subscribed (snd ?s0) \<and> result (snd ?s0) = Pending"
    using assms(1) by (simp add: sendCommand_def Let_def)
  have w: "subscribed (snd ?s1) \<and> result (snd ?s1) = Pending"
    using commandRun_waiting [OF assms(2), of ?s0 command] init by simp
  have "commandRun command allowPreliminary (map Response (earlier @ [line])) ?s0
        = commandStep command allowPreliminary (Response line) ?s1"
    by (simp add: commandRun_def)
  also have "\<dots> = responseHandler allowPreliminary line ?s1"
    using w by (simp add: commandStep_def)
  finally show ?thesis
    using responseHandler_final [OF assms(3), of ?s1 allowPreliminary] w by (simp add: Let_def)
qed

theorem sendCommand_final_reply_witness:
  "connected connectedClient \<and> isFinalLine ''226 Transfer complete'' \<and>
   result (snd (commandRun ''STOR /f.txt'' True
                  (map Response ([''150 Opening''] @ [''226 Transfer complete'']))
                  (sendCommand ''STOR /f.txt'' connectedClient)))
     = Resolved \<lparr> code = Num 226, text_message = ''Transfer complete'',
                   raw = ''226 Transfer complete'' \<rparr>"
proof -
  have f: "isFinalLine ''226 Transfer complete''"
    by (simp add: isFinalLine_def charAt_def)
  have e: "\<forall>l \<in> set [''150 Opening'']. \<not> isFinalLine l
             \<or> (True \<and> jsGe (lineCode l) 100 \<and> jsLt (lineCode l) 200)"
    by (simp add: lineCode_150)
  show ?thesis
    using sendCommand_final_reply [OF connected_connectedClient e f, of "''STOR /f.txt''"]
      connected_connectedClient f
    by (simp add: lineCode_226 Let_def)
qed

text \<open>
  C3.  The handler clears the timer on every line it is given, before it looks at the
  line.  A transfer command that has received its preliminary \<open>150\<close> reply is
  therefore still pending and still subscribed after the deadline: no timeout error is
  raised.
\<close>

theorem sendCommand_deadline_after_preliminary:
  "(let s = commandRun ''STOR /f.txt'' True [Response ''150 Opening'', Deadline]
              (sendCommand ''STOR /f.txt'' connectedClient)
    in result (snd s) = Pending \<and> subscribed (snd s) \<and> \<not> timerArmed (snd s))"
  by code_simp

lemma commandStep_statistics:
  "commandCount (fst (commandStep cmd ap ev s)) = commandCount (fst s)
   \<and> lastCommand (fst (commandStep cmd ap ev s)) = lastCommand (fst s)"
  by (cases s; cases ev)
     (simp_all add: commandStep_def responseHandler_def commandTimeout_def Let_def)

lemma commandRun_statistics:
  "commandCount (fst (commandRun cmd ap evs s)) = commandCount (fst s)
   \<and> lastCommand (fst (commandRun cmd ap evs s)) = lastCommand (fst s)"
proof (induction evs arbitrary: s)
  case Nil
  show ?case by (simp add: commandRun_def)
next
  case (Cons ev evs)
  have "commandRun cmd ap (ev # evs) s = commandRun cmd ap evs (commandStep cmd ap ev s)"
    by (simp add: commandRun_def)
  then show ?case
    using Cons.IH [of "commandStep cmd ap ev s"] commandStep_statistics [of cmd ap ev s]
    by simp
qed

lemma commandRun_settled:
  assumes "\<not> subscribed (snd s)" and "\<not> timerArmed (snd s)"
  shows "commandRun cmd ap evs s = s"
proof (induction evs)
  case Nil
  show ?case by (simp add: commandRun_def)
next
  case (Cons ev evs)
  have "commandStep cmd ap ev s = s"
    using assms by (cases ev) (simp_all add: commandStep_def)
  then have "commandRun cmd ap (ev # evs) s = commandRun cmd ap evs s"
    by (simp add: commandRun_def)
  with Cons.IH show ?case by simp
qed

text \<open>
  C4, as the code has it.  A call on a connected client adds one to \<open>commandCount\<close>
  and stores the command text in \<open>lastCommand\<close> exactly as given, whatever events
  follow; the password is masked only in the debug line.  A call on a client that is
  not connected is rejected at once and changes nothing.
\<close>

theorem sendCommand_statistics:
  "(connected c \<longrightarrow>
      (let s = commandRun command ap evs (sendCommand command c)
       in commandCount (fst s) = commandCount c + 1 \<and> lastCommand (fst s) = Some command))
   \<and> (connected c \<and> debug c \<longrightarrow>
        debugLog (fst (sendCommand command c)) = debugLog c @ [[''>>>'', maskPassword command]])
   \<and> (\<not> connected c \<longrightarrow>
        commandRun command ap evs (sendCommand command c)
          = (c, \<lparr> timerArmed = False, subscribed = False,
                   result = Rejected (Error ''Not connected'') \<rparr>))"
proof -
  have a: "connected c \<Longrightarrow>
      commandCount (fst (sendCommand command c)) = commandCount c + 1
      \<and> lastCommand (fst (sendCommand command c)) = Some command"
    by (simp add: sendCommand_def Let_def)
  have b: "connected c \<Longrightarrow> debug c \<Longrightarrow>
      debugLog (fst (sendCommand command c)) = debugLog c @ [[''>>>'', maskPassword command]]"
    by (simp add: sendCommand_def Let_def debugMsg_def)
  have c: "\<not> connected c \<Longrightarrow>
      commandRun command ap evs (sendCommand command c)
        = (c, \<lparr> timerArmed = False, subscribed = False,
                 result = Rejected (Error ''Not connected'') \<rparr>)"
    using commandRun_settled [of "sendCommand command c" command ap evs]
    by (simp add: sendCommand_def)
  show ?thesis
    using a b c commandRun_statistics [of command ap evs "sendCommand command c"]
    by (simp add: Let_def)
qed

theorem sendCommand_statistics_witness:
  "connected connectedClient
   \<and> commandCount (fst (commandRun ''PASS secret'' False [Response ''230 Logged in'']
                          (sendCommand ''PASS secret'' connectedClient))) = 1
   \<and> lastCommand (fst (commandRun ''PASS secret'' False [Response ''230 Logged in'']
                          (sendCommand ''PASS secret'' connectedClient))) = Some ''PASS secret''
   \<and> connected ((newClient True)\<lparr> connected := True \<rparr>) \<and> debug ((newClient True)\<lparr> connected := True \<rparr>)
   \<and> debugLog (fst (sendCommand ''PASS secret'' ((newClient True)\<lparr> connected := True \<rparr>)))
        = [[''>>>'', ''PASS ********'']]
   \<and> \<not> connected (newClient False)
   \<and> commandRun ''PWD'' False [Deadline] (sendCommand ''PWD'' (newClient False))
        = (newClient False, \<lparr> timerArmed = False, subscribed = False,
                               result = Rejected (Error ''Not connected'') \<rparr>)"
  using sendCommand_statistics [of connectedClient "''PASS secret''" False "[Response ''230 Logged in'']"]
    sendCommand_statistics [of "(newClient True)\<lparr> connected := True \<rparr>" "''PASS secret''" False "[]"]
    sendCommand_statistics [of "newClient False" "''PWD''" False "[Deadline]"]
  by (simp add: connectedClient_def newClient_def Let_def maskPassword_def startsWith_def)

theorem sendCommand_lastCommand_unmasked:
  "lastCommand (fst (sendCommand ''PASS secret'' connectedClient)) = Some ''PASS secret''
   \<and> lastCommand (fst (sendCommand ''PASS secret'' connectedClient))
        \<noteq> Some (maskPassword ''PASS secret'')
   \<and> commandCount (fst (sendCommand ''PWD'' (newClient False))) = commandCount (newClient False)"
  by (simp add: sendCommand_def connectedClient_def newClient_def Let_def maskPassword_def
        startsWith_def)

section \<open>Properties of the line framing\<close>

lemma splitCRLF_not_Nil [simp]: "splitCRLF s \<noteq> []"
  by (induction s rule: splitCRLF.induct) (auto split: list.splits)

lemma joinCRLF_Cons: "segs \<noteq> [] \<Longrightarrow> joinCRLF ((c # seg) # segs') = c # joinCRLF (seg # segs')"
  by (cases segs') simp_all












lemma debugMsg_client [simp]:
  "buffer (debugMsg args c) = buffer c"
  "authenticated (debugMsg args c) = authenticated c"
  by (simp_all add: debugMsg_def)







lemma loopsFinished_sClient [simp]: "loopsFinished (s\<lparr> sClient := c \<rparr>) = loopsFinished s"
  by (simp add: loopsFinished_def)

lemma loopsFinished_connectResult [simp]:
  "loopsFinished (s\<lparr> connectResult := r \<rparr>) = loopsFinished s"
  by (simp add: loopsFinished_def)





lemma runMicrotasks_Nil: "microtasks s = [] \<Longrightarrow> runMicrotasks s = s"
  by (simp add: runMicrotasks.simps)

lemma runMicrotasks_Cons:
  "microtasks s = h # hs \<Longrightarrow> runMicrotasks s = runMicrotasks (resumeHandler h (s\<lparr> microtasks := hs \<rparr>))"
  by (subst runMicrotasks.simps) simp








lemma session_lines:
  "lineCode ''220-Welcome'' = Num 220"
  "lineCode ''220 Ready'' = Num 220"
  "lineCode ''220 Welcome'' = Num 220"
  "lineCode ''331 Password required'' = Num 331" "isFinalLine ''331 Password required''"
  "lineCode ''230 Logged in'' = Num 230" "isFinalLine ''230 Logged in''"
  "lineCode ''200 ok'' = Num 200"
  by (simp_all add: lineCode_def parseInt_def substring_def clampIndex_def isWhiteSpace_def
        isRadixDigit_def digitValue_def digitsValue_def fround_def roundToDouble_def Let_def
        isFinalLine_def charAt_def)

lemmas session_eval = socketData_def handlerLoop.simps(2) emitResponse_def awaitLogin_def
  resumeHandler_def runMicrotasks_Nil runMicrotasks_Cons loginCommand_def newSession_def
  loginClient_def connectedClient_def newClient_def sendCommand_def debugMsg_def
  maskPassword_def startsWith_def commandStep_def responseHandler_def settle_def
  session_lines CRLF_def Let_def


text \<open>
  The same run evaluated: the login exchange is carried out and \<open>connect\<close> resolves.
\<close>

lemma socketDataAll_login:
  "authenticated (sClient (socketDataAll
        [''22'', ''0 Welcome'' @ [CHR 0x0D], [CHR 0x0A], ''331 Password required'' @ CRLF,
         ''230 Logged in'' @ CRLF @ ''15'']
        (newSession loginClient ''u'' ''p'')))
   \<and> connectResult (socketDataAll
        [''22'', ''0 Welcome'' @ [CHR 0x0D], [CHR 0x0A], ''331 Password required'' @ CRLF,
         ''230 Logged in'' @ CRLF @ ''15'']
        (newSession loginClient ''u'' ''p'')) = Resolved ()
   \<and> socketWritten (sClient (socketDataAll
        [''22'', ''0 Welcome'' @ [CHR 0x0D], [CHR 0x0A], ''331 Password required'' @ CRLF,
         ''230 Logged in'' @ CRLF @ ''15'']
        (newSession loginClient ''u'' ''p''))) = [''USER u'' @ CRLF, ''PASS p'' @ CRLF]"
  by (simp add: session_eval)


section \<open>Properties of the passive-mode reply\<close>

lemma isDigit_not_sep: "isDigit c \<Longrightarrow> c \<noteq> CHR '','' \<and> c \<noteq> CHR '')'' \<and> c \<noteq> CHR ''(''"
  by (auto simp: isDigit_def)

lemma not_isDigit_sep: "\<not> isDigit CHR '',''" "\<not> isDigit CHR '')''"
  by (simp_all add: isDigit_def)

lemma groupThen_intro:
  assumes "digitString ds" and "\<not> isDigit ch"
  shows "groupThen ch (ds @ ch # rest) = Some (ds, rest)"
proof -
  have t: "takeWhile isDigit (ds @ ch # rest) = ds"
    using assms by (simp add: digitString_def takeWhile_append2)
  have d: "dropWhile isDigit (ds @ ch # rest) = ch # rest"
    using assms by (simp add: digitString_def dropWhile_append2)
  show ?thesis
    using assms(1) by (simp add: groupThen_def digitGroup_def t d expectChar_def digitString_def)
qed

lemma groupThen_elim:
  assumes "groupThen ch s = Some (ds, rest)"
  shows "digitString ds \<and> s = ds @ ch # rest"
proof -
  from assms obtain r where g: "digitGroup s = Some (ds, r)" and e: "expectChar ch r = Some rest"
    by (auto simp: groupThen_def split: option.splits)
  from g have ds: "ds = takeWhile isDigit s" and r: "r = dropWhile isDigit s" and ne: "ds \<noteq> []"
    by (auto simp: digitGroup_def Let_def split: if_splits)
  from e have "r = ch # rest"
    by (auto simp: expectChar_def split: list.splits if_splits)
  moreover have "s = ds @ r" using ds r by simp
  moreover have "\<forall>c \<in> set ds. isDigit c" using ds by (auto dest: set_takeWhileD)
  ultimately show ?thesis using ne by (simp add: digitString_def)
qed

lemma pasvMatchAt_intro:
  assumes "pasvGroups g"
  shows "pasvMatchAt (pasvText g @ post) = Some g"
proof -
  obtain a b c d p1 p2 where g: "g = (a, b, c, d, p1, p2)" by (cases g) auto
  have n: "\<not> isDigit CHR '',''" "\<not> isDigit CHR '')''" by (simp_all add: isDigit_def)
  show ?thesis
    using assms unfolding g
    by (simp add: pasvMatchAt_def expectChar_def groupThen_intro n)
qed

lemma pasvMatchAt_elim:
  assumes "pasvMatchAt s = Some g"
  shows "pasvGroups g \<and> (\<exists>post. s = pasvText g @ post)"
proof -
  obtain a b c d p1 p2 where g: "g = (a, b, c, d, p1, p2)" by (cases g) auto
  from assms obtain r0 r1 r2 r3 r4 r5 r6 where
      e0: "expectChar CHR ''('' s = Some r0"
    and g1: "groupThen CHR '','' r0 = Some (a, r1)"
    and g2: "groupThen CHR '','' r1 = Some (b, r2)"
    and g3: "groupThen CHR '','' r2 = Some (c, r3)"
    and g4: "groupThen CHR '','' r3 = Some (d, r4)"
    and g5: "groupThen CHR '','' r4 = Some (p1, r5)"
    and g6: "groupThen CHR '')'' r5 = Some (p2, r6)"
    unfolding g pasvMatchAt_def by (auto split: option.splits)
  from e0 have s: "s = CHR ''('' # r0"
    by (auto simp: expectChar_def split: list.splits if_splits)
  show ?thesis
    using s groupThen_elim [OF g1] groupThen_elim [OF g2] groupThen_elim [OF g3]
      groupThen_elim [OF g4] groupThen_elim [OF g5] groupThen_elim [OF g6]
    unfolding g by simp
qed

lemma pasvMatch_Some:
  "pasvMatch msg = Some g \<Longrightarrow>
     \<exists>pre post. msg = pre @ pasvText g @ post \<and> pasvGroups g"
proof (induction msg)
  case Nil
  then show ?case by simp
next
  case (Cons x xs)
  show ?case
  proof (cases "pasvMatchAt (x # xs)")
    case None
    then have "pasvMatch xs = Some g" using Cons.prems by simp
    then obtain pre post where "xs = pre @ pasvText g @ post \<and> pasvGroups g"
      using Cons.IH by blast
    then have "x # xs = (x # pre) @ pasvText g @ post \<and> pasvGroups g" by simp
    then show ?thesis by blast
  next
    case (Some m)
    then have "m = g" using Cons.prems by simp
    then obtain post where "x # xs = [] @ pasvText g @ post \<and> pasvGroups g"
      using pasvMatchAt_elim [OF Some] by auto
    then show ?thesis by blast
  qed
qed

lemma pasvMatch_leftmost:
  assumes "pasvMatchAt s = Some g"
    and "\<forall>k < length pre. pasvMatchAt (drop k (pre @ s)) = None"
  shows "pasvMatch (pre @ s) = Some g"
  using assms
proof (induction pre)
  case Nil
  then show ?case by (cases s) (simp_all add: pasvMatchAt_def expectChar_def)
next
  case (Cons x pre)
  have "pasvMatchAt ((x # pre) @ s) = None"
    using Cons.prems(2) by (auto dest: spec [of _ 0])
  moreover have "\<forall>k < length pre. pasvMatchAt (drop k (pre @ s)) = None"
  proof (intro allI impI)
    fix k assume "k < length pre"
    then have "pasvMatchAt (drop (Suc k) ((x # pre) @ s)) = None"
      using Cons.prems(2) by (auto dest: spec [of _ "Suc k"])
    then show "pasvMatchAt (drop k (pre @ s)) = None" by simp
  qed
  ultimately show ?case using Cons.IH [OF Cons.prems(1)] by simp
qed


lemma fround_exact: "0 \<le> n \<Longrightarrow> n < 2 ^ 53 \<Longrightarrow> fround n = Num n"
  by (simp add: fround_def roundToDouble_def)

lemma digitsValue_foldl_nonneg:
  "0 \<le> acc \<Longrightarrow> 0 \<le> foldl (\<lambda>a c. a * int radix + int (the (digitValue radix c))) acc z"
  by (induction z arbitrary: acc) simp_all

lemma digitsValue_nonneg: "0 \<le> digitsValue radix z"
  using digitsValue_foldl_nonneg [of 0 radix z] by (simp add: digitsValue_def)

lemma isDigit_isRadixDigit: "isDigit c \<Longrightarrow> isRadixDigit 10 c"
  by (auto simp: isDigit_def isRadixDigit_def digitValue_def Let_def)

lemma isDigit_not_space: "isDigit c \<Longrightarrow> \<not> isWhiteSpace c"
  by (auto simp: isDigit_def isWhiteSpace_def)

lemma isDigit_not_sign: "isDigit c \<Longrightarrow> c \<noteq> CHR ''-'' \<and> c \<noteq> CHR ''+'' \<and> c \<noteq> CHR ''x'' \<and> c \<noteq> CHR ''X''"
  by (auto simp: isDigit_def)

lemma parseInt_digitString:
  assumes "digitString ds"
  shows "parseInt ds = fround (digitsValue 10 ds)"
proof -
  obtain x xs where ds: "ds = x # xs" and x: "isDigit x" and xs: "\<forall>c \<in> set xs. isDigit c"
    using assms by (cases ds) (auto simp: digitString_def)
  have s0: "dropWhile isWhiteSpace ds = ds"
    using ds isDigit_not_space [OF x] by simp
  have sg: "hd ds \<noteq> CHR ''-'' \<and> hd ds \<noteq> CHR ''+''"
    using ds isDigit_not_sign [OF x] by simp
  have hx: "take 2 ds \<noteq> ''0x'' \<and> take 2 ds \<noteq> ''0X''"
  proof (cases xs)
    case Nil
    then show ?thesis using ds by simp
  next
    case (Cons y ys)
    then have "isDigit y" using xs by simp
    then show ?thesis using ds Cons isDigit_not_sign [of y] by auto
  qed
  have tw: "takeWhile (isRadixDigit 10) ds = ds"
    using assms by (auto simp: digitString_def isDigit_isRadixDigit)
  have ne: "ds \<noteq> []" using ds by simp
  show ?thesis
    unfolding parseInt_def Let_def s0 by (simp add: sg hx tw ne)
qed

lemma pasv_port_exact:
  assumes "digitString p1" and "digitString p2"
    and "digitsValue 10 p1 * 256 + digitsValue 10 p2 < 2 ^ 53"
  shows "jsAdd (jsMul (parseInt p1) (Num 256)) (parseInt p2)
           = Num (digitsValue 10 p1 * 256 + digitsValue 10 p2)"
proof -
  have n1: "0 \<le> digitsValue 10 p1" and n2: "0 \<le> digitsValue 10 p2"
    by (rule digitsValue_nonneg)+
  have b1: "digitsValue 10 p1 < 2 ^ 53" and b2: "digitsValue 10 p2 < 2 ^ 53"
    and b3: "digitsValue 10 p1 * 256 < 2 ^ 53"
    using assms(3) n1 n2 by linarith+
  have m: "0 \<le> digitsValue 10 p1 * 256" using n1 by simp
  have s: "0 \<le> digitsValue 10 p1 * 256 + digitsValue 10 p2" using n1 n2 by simp
  show ?thesis
    using fround_exact [OF n1 b1] fround_exact [OF n2 b2] fround_exact [OF m b3]
      fround_exact [OF s assms(3)]
    by (simp add: parseInt_digitString [OF assms(1)] parseInt_digitString [OF assms(2)])
qed

lemma pasvMatch_None: "\<not> containsPasvPattern msg \<Longrightarrow> pasvMatch msg = None"
proof (rule ccontr)
  assume n: "\<not> containsPasvPattern msg" and "pasvMatch msg \<noteq> None"
  then obtain g where "pasvMatch msg = Some g" by auto
  then obtain pre post where "msg = pre @ pasvText g @ post \<and> pasvGroups g"
    using pasvMatch_Some by blast
  then have "containsPasvPattern msg"
    unfolding containsPasvPattern_def by blast
  then show False using n by simp
qed

lemma pasvMatch_first:
  assumes "pasvGroups g"
    and "\<forall>pre' g' post'. pre @ pasvText g @ post = pre' @ pasvText g' @ post' \<and> pasvGroups g'
            \<longrightarrow> length pre \<le> length pre'"
  shows "pasvMatch (pre @ pasvText g @ post) = Some g"
proof -
  let ?msg = "pre @ pasvText g @ post"
  have "\<forall>k < length pre. pasvMatchAt (drop k ?msg) = None"
  proof (intro allI impI, rule ccontr)
    fix k assume k: "k < length pre" and "pasvMatchAt (drop k ?msg) \<noteq> None"
    then obtain g' where "pasvMatchAt (drop k ?msg) = Some g'" by auto
    then obtain post' where g': "pasvGroups g'" and d: "drop k ?msg = pasvText g' @ post'"
      using pasvMatchAt_elim by blast
    have "?msg = take k ?msg @ pasvText g' @ post'"
      using d append_take_drop_id [of k ?msg] by simp
    then have "length pre \<le> length (take k ?msg)"
      using assms(2) g' by blast
    then show False using k by simp
  qed
  then show ?thesis
    using pasvMatch_leftmost [OF pasvMatchAt_intro [OF assms(1), of post], of pre] by simp
qed


lemma pasvMatch_contains:
  assumes "containsPasvPattern msg"
  shows "\<exists>g. pasvMatch msg = Some g"
proof -
  let ?P = "\<lambda>n. \<exists>pre g post. msg = pre @ pasvText g @ post \<and> pasvGroups g \<and> length pre = n"
  have "\<exists>n. ?P n"
    using assms unfolding containsPasvPattern_def by blast
  then obtain n where n: "?P n" and least: "\<forall>m < n. \<not> ?P m"
    using exists_least_iff [of ?P] by blast
  obtain pre g post where d: "msg = pre @ pasvText g @ post" "pasvGroups g" "length pre = n"
    using n by blast
  have "\<forall>pre' g' post'. pre @ pasvText g @ post = pre' @ pasvText g' @ post' \<and> pasvGroups g'
          \<longrightarrow> length pre \<le> length pre'"
  proof (intro allI impI, rule ccontr)
    fix pre' g' post'
    assume a: "pre @ pasvText g @ post = pre' @ pasvText g' @ post' \<and> pasvGroups g'"
      and "\<not> length pre \<le> length pre'"
    then have "length pre' < n" using d(3) by simp
    moreover have "?P (length pre')" using a d(1) by blast
    ultimately show False using least by blast
  qed
  then have "pasvMatch (pre @ pasvText g @ post) = Some g"
    using pasvMatch_first [OF d(2)] by blast
  then show ?thesis using d(1) by blast
qed

lemma no_paren_leftmost:
  assumes "CHR ''('' \<notin> set pre"
  shows "\<forall>pre' g' post'. pre @ rest = pre' @ pasvText g' @ post' \<and> pasvGroups g'
            \<longrightarrow> length pre \<le> length pre'"
proof (intro allI impI, rule ccontr)
  fix pre' g' post'
  assume a: "pre @ rest = pre' @ pasvText g' @ post' \<and> pasvGroups g'"
    and n: "\<not> length pre \<le> length pre'"
  obtain t where t: "pasvText g' = CHR ''('' # t" by (cases g') auto
  have "(pre @ rest) ! length pre' = CHR ''(''"
    using a t by (simp add: nth_append)
  moreover have "(pre @ rest) ! length pre' = pre ! length pre'"
    using n by (simp add: nth_append)
  ultimately have "CHR ''('' \<in> set pre"
    using n by (metis not_le nth_mem)
  then show False using assms by simp
qed

lemma containsPasvPattern_paren: "containsPasvPattern msg \<Longrightarrow> CHR ''('' \<in> set msg"
proof -
  assume "containsPasvPattern msg"
  then obtain pre g post where m: "msg = pre @ pasvText g @ post"
    unfolding containsPasvPattern_def by blast
  obtain t where "pasvText g = CHR ''('' # t" by (cases g) auto
  then show ?thesis using m by simp
qed

text \<open>
  C6.  A \<open>PASV\<close> reply is the reply with which the \<open>PASV\<close> command of
  \<open>enterPassiveMode\<close> resolves.  If the first occurrence of the pattern in the reply's
  message is \<open>(a,b,c,d,p1,p2)\<close>, with \<open>p1*256 + p2\<close> below \<open>2^53\<close> (which holds
  for every pair of octets and every 16-bit port), the call resolves with the endpoint of
  host \<open>a.b.c.d\<close> and port \<open>p1*256 + p2\<close>.  Every message that contains the pattern
  has such a first occurrence and makes the call resolve with an endpoint.  If the
  message does not contain the pattern, the call rejects with the parse error.
\<close>

theorem enterPassiveMode_endpoint:
  assumes "awaitCommand srv ''PASV'' False cs = (Resolved response, cs')"
  shows "(\<forall>pre a b c d p1 p2 post.
            text_message response = pre @ pasvText (a, b, c, d, p1, p2) @ post
            \<and> pasvGroups (a, b, c, d, p1, p2)
            \<and> (\<forall>pre' g' post'. text_message response = pre' @ pasvText g' @ post' \<and> pasvGroups g'
                  \<longrightarrow> length pre \<le> length pre')
            \<and> digitsValue 10 p1 * 256 + digitsValue 10 p2 < 2 ^ 53
            \<longrightarrow> enterPassiveMode srv cs
                  = (Resolved \<lparr> host = a @ ''.'' @ b @ ''.'' @ c @ ''.'' @ d,
                                port = Num (digitsValue 10 p1 * 256 + digitsValue 10 p2) \<rparr>, cs'))
       \<and> (containsPasvPattern (text_message response) \<longrightarrow>
            (\<exists>e. enterPassiveMode srv cs = (Resolved e, cs')))
       \<and> (\<not> containsPasvPattern (text_message response) \<longrightarrow>
            enterPassiveMode srv cs = (Rejected (Error ''Failed to parse PASV response''), cs'))"
proof (intro conjI allI impI)
  fix pre a b c d p1 p2 post
  assume h: "text_message response = pre @ pasvText (a, b, c, d, p1, p2) @ post
            \<and> pasvGroups (a, b, c, d, p1, p2)
            \<and> (\<forall>pre' g' post'. text_message response = pre' @ pasvText g' @ post' \<and> pasvGroups g'
                  \<longrightarrow> length pre \<le> length pre')
            \<and> digitsValue 10 p1 * 256 + digitsValue 10 p2 < 2 ^ 53"
  then have m: "pasvMatch (text_message response) = Some (a, b, c, d, p1, p2)"
    using pasvMatch_first [of "(a, b, c, d, p1, p2)" pre post] by simp
  have d1: "digitString p1" and d2: "digitString p2" using h by simp_all
  have bound: "digitsValue 10 p1 * 256 + digitsValue 10 p2 < 2 ^ 53" using h by simp
  have port: "jsAdd (jsMul (parseInt p1) (Num 256)) (parseInt p2)
                = Num (digitsValue 10 p1 * 256 + digitsValue 10 p2)"
    by (rule pasv_port_exact [OF d1 d2 bound])
  have "enterPassiveMode srv cs
          = (Resolved \<lparr> host = a @ ''.'' @ b @ ''.'' @ c @ ''.'' @ d,
                        port = jsAdd (jsMul (parseInt p1) (Num 256)) (parseInt p2) \<rparr>, cs')"
    using assms m by (simp add: enterPassiveMode_def)
  then show "enterPassiveMode srv cs
          = (Resolved \<lparr> host = a @ ''.'' @ b @ ''.'' @ c @ ''.'' @ d,
                        port = Num (digitsValue 10 p1 * 256 + digitsValue 10 p2) \<rparr>, cs')"
    unfolding port .
next
  assume "containsPasvPattern (text_message response)"
  then obtain g where "pasvMatch (text_message response) = Some g"
    using pasvMatch_contains by blast
  then show "\<exists>e. enterPassiveMode srv cs = (Resolved e, cs')"
    using assms by (cases g) (simp add: enterPassiveMode_def)
next
  assume "\<not> containsPasvPattern (text_message response)"
  then have "pasvMatch (text_message response) = None" by (rule pasvMatch_None)
  then show "enterPassiveMode srv cs = (Rejected (Error ''Failed to parse PASV response''), cs')"
    using assms by (simp add: enterPassiveMode_def)
qed

theorem enterPassiveMode_endpoint_witness:
  "fst (enterPassiveMode (replyServer [''227 Entering Passive Mode (127,0,0,1,200,50).''])
          (connectedClient, ()))
     = Resolved \<lparr> host = ''127.0.0.1'', port = Num 51250 \<rparr>
   \<and> fst (enterPassiveMode (replyServer [''227 Entering Passive Mode'']) (connectedClient, ()))
     = Rejected (Error ''Failed to parse PASV response'')"
proof -
  let ?c1 = "fst (sendCommand ''PASV'' connectedClient)"
  let ?g = "(''127'', ''0'', ''0'', ''1'', ''200'', ''50'')"
  let ?r = "\<lparr> code = Num 227, text_message = ''Entering Passive Mode (127,0,0,1,200,50).'',
               raw = ''227 Entering Passive Mode (127,0,0,1,200,50).'' \<rparr>"
  have aw: "awaitCommand (replyServer [''227 Entering Passive Mode (127,0,0,1,200,50).''])
              ''PASV'' False (connectedClient, ()) = (Resolved ?r, ?c1, ())"
    by code_simp
  have tm: "text_message ?r = ''Entering Passive Mode '' @ pasvText ?g @ ''.''"
    by simp
  have grp: "pasvGroups ?g"
    by (simp add: digitString_def isDigit_def)
  have left: "\<forall>pre' g' post'.
      text_message ?r = pre' @ pasvText g' @ post' \<and> pasvGroups g'
        \<longrightarrow> length ''Entering Passive Mode '' \<le> length pre'"
    unfolding tm by (rule no_paren_leftmost) simp
  have v: "digitsValue 10 ''200'' * 256 + digitsValue 10 ''50'' = 51250"
    by code_simp
  then have b: "digitsValue 10 ''200'' * 256 + digitsValue 10 ''50'' < 2 ^ 53"
    by simp
  note res = enterPassiveMode_endpoint [OF aw, THEN conjunct1, rule_format,
        of "''Entering Passive Mode ''" "''127''" "''0''" "''0''" "''1''" "''200''" "''50''" "''.''",
        OF conjI [OF tm conjI [OF grp conjI [OF left b]]]]
  have one: "fst (enterPassiveMode (replyServer [''227 Entering Passive Mode (127,0,0,1,200,50).''])
                    (connectedClient, ()))
             = Resolved \<lparr> host = ''127.0.0.1'', port = Num 51250 \<rparr>"
    unfolding res v by simp
  have aw2: "awaitCommand (replyServer [''227 Entering Passive Mode'']) ''PASV'' False
               (connectedClient, ())
             = (Resolved \<lparr> code = Num 227, text_message = ''Entering Passive Mode'',
                            raw = ''227 Entering Passive Mode'' \<rparr>, ?c1, ())"
    by code_simp
  have absent: "\<not> containsPasvPattern ''Entering Passive Mode''"
    using containsPasvPattern_paren [of "''Entering Passive Mode''"] by auto
  have two: "fst (enterPassiveMode (replyServer [''227 Entering Passive Mode''])
                    (connectedClient, ()))
             = Rejected (Error ''Failed to parse PASV response'')"
    using enterPassiveMode_endpoint [OF aw2, THEN conjunct2, THEN conjunct2] absent by simp
  have present: "containsPasvPattern (text_message ?r)"
    unfolding containsPasvPattern_def using tm grp by blast
  have three: "\<exists>e. enterPassiveMode (replyServer [''227 Entering Passive Mode (127,0,0,1,200,50).''])
                    (connectedClient, ()) = (Resolved e, ?c1, ())"
    using enterPassiveMode_endpoint [OF aw, THEN conjunct2, THEN conjunct1] present by blast
  show ?thesis using one two three by simp
qed

section \<open>Evaluating a command against a server\<close>

lemma commandStep_socketWritten:
  "socketWritten (fst (commandStep cmd ap ev s)) = socketWritten (fst s)"
  by (cases s; cases ev)
     (simp_all add: commandStep_def responseHandler_def commandTimeout_def Let_def)

lemma commandRun_socketWritten:
  "socketWritten (fst (commandRun cmd ap evs s)) = socketWritten (fst s)"
proof (induction evs arbitrary: s)
  case Nil
  show ?case by (simp add: commandRun_def)
next
  case (Cons ev evs)
  have "commandRun cmd ap (ev # evs) s = commandRun cmd ap evs (commandStep cmd ap ev s)"
    by (simp add: commandRun_def)
  then show ?case
    using Cons.IH [of "commandStep cmd ap ev s"] commandStep_socketWritten [of cmd ap ev s]
    by simp
qed

lemma awaitCommand_resolved_written:
  assumes "awaitCommand srv cmd ap (c, st) = (Resolved r, c', st')"
  shows "socketWritten c' = socketWritten c @ [cmd @ CRLF]"
proof (cases "connected c")
  case False
  then show ?thesis using assms by (simp add: awaitCommand_def sendCommand_def)
next
  case True
  obtain evs st1 where sv: "srv st cmd = (evs, st1)" by (cases "srv st cmd") auto
  have "c' = fst (commandRun cmd ap evs (sendCommand cmd c))"
    using assms True sv by (simp add: awaitCommand_def Let_def)
  moreover have "socketWritten (fst (sendCommand cmd c)) = socketWritten c @ [cmd @ CRLF]"
    using True by (simp add: sendCommand_def Let_def)
  ultimately show ?thesis by (simp add: commandRun_socketWritten)
qed

lemma cd_resolved:
  assumes "fst (cd srv path cs) = Resolved ()"
  shows "\<exists>c' st'. cd srv path cs = (Resolved (), c', st')
           \<and> socketWritten c' = socketWritten (fst cs) @ [(''CWD '' @ path) @ CRLF]"
proof -
  obtain c st where cs: "cs = (c, st)" by (cases cs) auto
  obtain p c' st' where aw: "awaitCommand srv (''CWD '' @ path) False (c, st) = (p, c', st')"
    by (cases "awaitCommand srv (''CWD '' @ path) False (c, st)") auto
  show ?thesis
  proof (cases p)
    case Pending
    then show ?thesis using assms aw cs by (simp add: cd_def)
  next
    case (Rejected e)
    then show ?thesis using assms aw cs by (simp add: cd_def)
  next
    case (Resolved r)
    then have "cd srv path cs = (Resolved (), c', st')" using aw cs by (simp add: cd_def)
    moreover have "socketWritten c' = socketWritten c @ [(''CWD '' @ path) @ CRLF]"
      using awaitCommand_resolved_written [of srv "''CWD '' @ path" False c st r c' st'] aw Resolved
      by simp
    ultimately show ?thesis using cs by simp
  qed
qed

lemma debugState_socketWritten [simp]:
  "socketWritten (fst (debugState args cs)) = socketWritten (fst cs)"
  by (cases cs) (simp add: debugState_def)

lemma sendCommand_connected [simp]: "connected (fst (sendCommand cmd c)) = connected c"
  by (simp add: sendCommand_def Let_def)

lemma sendCommand_socketWritten:
  "socketWritten (fst (sendCommand cmd c))
     = (if connected c then socketWritten c @ [cmd @ CRLF] else socketWritten c)"
  by (simp add: sendCommand_def Let_def)

lemma sendCommand_pending:
  "connected c \<Longrightarrow> snd (sendCommand cmd c) = \<lparr> timerArmed = True, subscribed = True, result = Pending \<rparr>"
  by (simp add: sendCommand_def Let_def)

lemma commandStep_connected:
  "connected (fst (commandStep cmd ap ev s)) = connected (fst s)"
  by (cases s; cases ev)
     (simp_all add: commandStep_def responseHandler_def commandTimeout_def Let_def)

lemma commandRun_connected [simp]:
  "connected (fst (commandRun cmd ap evs s)) = connected (fst s)"
proof (induction evs arbitrary: s)
  case Nil
  show ?case by (simp add: commandRun_def)
next
  case (Cons ev evs)
  have "commandRun cmd ap (ev # evs) s = commandRun cmd ap evs (commandStep cmd ap ev s)"
    by (simp add: commandRun_def)
  then show ?case
    using Cons.IH [of "commandStep cmd ap ev s"] commandStep_connected [of cmd ap ev s]
    by simp
qed

lemma awaitCommand_connected:
  "connected c \<Longrightarrow>
     awaitCommand srv cmd ap (c, st)
       = (result (snd (commandRun cmd ap (fst (srv st cmd)) (sendCommand cmd c))),
          fst (commandRun cmd ap (fst (srv st cmd)) (sendCommand cmd c)),
          snd (srv st cmd))"
  by (simp add: awaitCommand_def Let_def split: prod.splits)

lemma awaitCommand_not_connected:
  "\<not> connected c \<Longrightarrow>
     awaitCommand srv cmd ap (c, st) = (Rejected (Error ''Not connected''), c, st)"
  by (simp add: awaitCommand_def sendCommand_def)

lemma commandRun_one_line:
  assumes "connected c" and "isFinalLine l"
    and "\<not> (jsGe (lineCode l) 100 \<and> jsLt (lineCode l) 200 \<and> ap)"
  shows "result (snd (commandRun cmd ap [Response l] (sendCommand cmd c))) =
      (if jsGe (lineCode l) 200 \<and> jsLt (lineCode l) 400
       then Resolved \<lparr> code = lineCode l, text_message = drop 4 l, raw = l \<rparr>
       else Rejected (Error (''FTP Error '' @ numToString (lineCode l) @ '': '' @ drop 4 l)))"
proof -
  let ?s0 = "sendCommand cmd c"
  have init: "subscribed (snd ?s0)" "result (snd ?s0) = Pending"
    using assms(1) by (simp_all add: sendCommand_pending)
  have "commandRun cmd ap [Response l] ?s0 = responseHandler ap l ?s0"
    using init by (simp add: commandRun_def commandStep_def)
  then show ?thesis
    using responseHandler_final [OF assms(2) init, of ap] assms(3) by simp
qed

lemma commandRun_deadline:
  assumes "connected c"
  shows "result (snd (commandRun cmd ap [Deadline] (sendCommand cmd c)))
           = Rejected (Error (''Command timeout: '' @ maskPassword cmd))"
proof -
  obtain c' where s0: "sendCommand cmd c
      = (c', \<lparr> timerArmed = True, subscribed = True, result = Pending \<rparr>)"
    using sendCommand_pending [OF assms, of cmd] by (cases "sendCommand cmd c") auto
  show ?thesis
    by (simp add: s0 commandRun_def commandStep_def commandTimeout_def settle_def)
qed

lemma commandRun_silent:
  assumes "connected c"
  shows "result (snd (commandRun cmd ap [] (sendCommand cmd c))) = Pending"
  using assms by (simp add: commandRun_def sendCommand_pending)

lemma debugState_pair [simp]: "debugState args (c, st) = (debugMsg args c, st)"
  by (simp add: debugState_def)

lemmas line_eval = lineCode_def parseInt_def substring_def clampIndex_def isWhiteSpace_def
  isRadixDigit_def digitValue_def digitsValue_def fround_def roundToDouble_def Let_def
  isFinalLine_def charAt_def

lemma dirServer_lines:
  "lineCode ''250 Directory changed'' = Num 250" "isFinalLine ''250 Directory changed''"
  "lineCode ''550 No such directory'' = Num 550" "isFinalLine ''550 No such directory''"
  "lineCode ''550 Directory already exists'' = Num 550" "isFinalLine ''550 Directory already exists''"
  "lineCode ''257 Directory created'' = Num 257" "isFinalLine ''257 Directory created''"
  "lineCode ''502 Command not implemented'' = Num 502" "isFinalLine ''502 Command not implemented''"
  by (simp_all add: line_eval)

lemma example_lines:
  "lineCode ''550 Permission denied.'' = Num 550" "isFinalLine ''550 Permission denied.''"
  "lineCode ''553 Not allowed.'' = Num 553" "isFinalLine ''553 Not allowed.''"
  "lineCode ''550 No such file'' = Num 550" "isFinalLine ''550 No such file''"
  "lineCode ''213 1024'' = Num 213" "isFinalLine ''213 1024''"
  by (simp_all add: line_eval)

lemma natToString_examples:
  "natToString 550 = ''550''" "natToString 553 = ''553''"
  by (simp_all add: natToString.simps digitChar_def)

lemmas await_eval = awaitCommand_connected awaitCommand_not_connected commandRun_one_line
  commandRun_deadline commandRun_silent commandRun_socketWritten sendCommand_socketWritten
  dirServer_lines example_lines natToString_examples

lemmas command_eval = cd_def mkdir_def size_cmd_def exists_cmd_def ensureDir.simps
  ensureDirCreate_def normalizePath_def parentDirOf_def substring_def clampIndex_def
  startsWith_def Let_def replyServer_def eventServer_def dirServer_def maskPassword_def


lemma connected_newClient: "\<not> connected (newClient dbg)"
  by (simp add: newClient_def)

lemma socketWritten_connectedClient: "socketWritten connectedClient = []"
  by (simp add: connectedClient_def newClient_def)

lemmas client_eval = connected_connectedClient connected_newClient socketWritten_connectedClient

section \<open>Properties of ensureDir\<close>

text \<open>
  What \<open>ensureDir\<close> does when its \<open>MKD\<close> step fails.  The path is neither the root
  nor the current directory, the \<open>CWD\<close> probe has failed, the parent (when
  \<open>recursive\<close> asks for it) has been ensured, and \<open>MKD\<close> fails with the error \<open>err\<close>.
  The test is made on the text of the error: \<open>ensureDir\<close> resolves when the text contains
  \<open>550\<close> or \<open>exists\<close>, and re-raises \<open>err\<close> otherwise.
\<close>

lemma ensureDir_mkd_failure:
  assumes "normalizePath dirPath \<noteq> ''/''" and "normalizePath dirPath \<noteq> ''.''"
    and "cd srv (normalizePath dirPath)
           (debugState [''Ensuring directory exists: '' @ dirPath] cs) = (Rejected e0, cs1)"
    and "if recursive \<and> parentDirOf (normalizePath dirPath) \<noteq> ''/''
              \<and> parentDirOf (normalizePath dirPath) \<noteq> ''.''
         then ensureDir srv (parentDirOf (normalizePath dirPath)) True
                (debugState [''Directory doesn't exist: '' @ normalizePath dirPath] cs1)
              = (Resolved (), cs2)
         else cs2 = debugState [''Directory doesn't exist: '' @ normalizePath dirPath] cs1"
    and "mkdir srv (normalizePath dirPath) cs2 = (Rejected err, cs3)"
  shows "ensureDir srv dirPath recursive cs =
           (if includesStr (message err) ''550'' \<or> includesStr (message err) ''exists''
            then (Resolved (), cs3) else (Rejected err, cs3))"
proof -
  have c: "ensureDirCreate srv (normalizePath dirPath) cs2 =
           (if includesStr (message err) ''550'' \<or> includesStr (message err) ''exists''
            then (Resolved (), cs3) else (Rejected err, cs3))"
    using assms(5) by (simp add: ensureDirCreate_def)
  show ?thesis
  proof (cases "recursive \<and> parentDirOf (normalizePath dirPath) \<noteq> ''/''
              \<and> parentDirOf (normalizePath dirPath) \<noteq> ''.''")
    case True
    then have "ensureDir srv (parentDirOf (normalizePath dirPath)) True
                (debugState [''Directory doesn't exist: '' @ normalizePath dirPath] cs1)
              = (Resolved (), cs2)"
      using assms(4) by simp
    then have "ensureDir srv dirPath recursive cs = ensureDirCreate srv (normalizePath dirPath) cs2"
      using True assms(1-3) by (subst ensureDir.simps) (simp add: Let_def)
    then show ?thesis using c by simp
  next
    case False
    then have "cs2 = debugState [''Directory doesn't exist: '' @ normalizePath dirPath] cs1"
      using assms(4) by (simp split: if_splits)
    then have "ensureDir srv dirPath recursive cs = ensureDirCreate srv (normalizePath dirPath) cs2"
      using False assms(1-3) by (subst ensureDir.simps) (auto simp add: Let_def)
    then show ?thesis using c by simp
  qed
qed

text \<open>
  C7.  The comment in the code says that the \<open>catch\<close> ignores the error of a directory
  created by another process.  Against a server that answers \<open>550 Permission denied.\<close>
  the \<open>MKD\<close> command is rejected with an error that does not say that the directory
  exists, and \<open>ensureDir\<close> resolves all the same: the error is not re-raised.
\<close>

theorem ensureDir_swallows_permission_denied:
  "fst (ensureDir (replyServer [''550 Permission denied.'']) ''/a'' True (connectedClient, ()))
     = Resolved ()
   \<and> fst (mkdir (replyServer [''550 Permission denied.'']) ''/a'' (connectedClient, ()))
     = Rejected (Error ''FTP Error 550: Permission denied.'')
   \<and> \<not> indicatesAlreadyExists (Error ''FTP Error 550: Permission denied.'')"
  by (simp add: await_eval command_eval client_eval indicatesAlreadyExists_def)

text \<open>
  The same test swallows a command timeout when the path itself contains \<open>550\<close>.
\<close>

lemma ensureDir_swallows_timeout:
  "fst (mkdir (eventServer [Deadline]) ''/550'' (connectedClient, ()))
     = Rejected (Error ''Command timeout: MKD /550'')
   \<and> fst (ensureDir (eventServer [Deadline]) ''/550'' True (connectedClient, ())) = Resolved ()"
  by (simp add: await_eval command_eval client_eval)

text \<open>
  When the \<open>CWD\<close> probe of the normalized path succeeds, \<open>ensureDir\<close> resolves, and what
  it writes on the control socket is the \<open>CWD\<close> command alone (nothing at all for the
  root and the current directory).  Against a server that keeps its directories, a
  second call on the same path goes this way.
\<close>

lemma ensureDir_existing_directory:
  assumes "normalizePath dirPath = ''/'' \<or> normalizePath dirPath = ''.''
         \<or> fst (cd srv (normalizePath dirPath)
                   (debugState [''Ensuring directory exists: '' @ dirPath] cs1)) = Resolved ()"
  shows "fst (ensureDir srv dirPath recursive cs1) = Resolved ()
     \<and> socketWritten (fst (snd (ensureDir srv dirPath recursive cs1)))
         = socketWritten (fst cs1)
           @ (if normalizePath dirPath = ''/'' \<or> normalizePath dirPath = ''.'' then []
              else [''CWD '' @ normalizePath dirPath @ CRLF])"
proof (cases "normalizePath dirPath = ''/'' \<or> normalizePath dirPath = ''.''")
  case True
  then show ?thesis by (simp add: ensureDir.simps [of srv dirPath recursive cs1] Let_def)
next
  case False
  then have "fst (cd srv (normalizePath dirPath)
                   (debugState [''Ensuring directory exists: '' @ dirPath] cs1)) = Resolved ()"
    using assms by simp
  then obtain c' st' where
      r: "cd srv (normalizePath dirPath)
            (debugState [''Ensuring directory exists: '' @ dirPath] cs1) = (Resolved (), c', st')"
    and w: "socketWritten c' = socketWritten (fst cs1) @ [(''CWD '' @ normalizePath dirPath) @ CRLF]"
    using cd_resolved by fastforce
  have "ensureDir srv dirPath recursive cs1
          = (Resolved (), debugState [''Directory already exists: '' @ normalizePath dirPath] (c', st'))"
    using False r by (simp add: ensureDir.simps [of srv dirPath recursive cs1] Let_def)
  then show ?thesis using False w by simp
qed

lemma ensureDir_twice_example:
  "ensureDir dirServer ''/a/b/c'' True (connectedClient, [])
     = (Resolved (), snd (ensureDir dirServer ''/a/b/c'' True (connectedClient, [])))
   \<and> socketWritten (fst (snd (ensureDir dirServer ''/a/b/c'' True (connectedClient, []))))
       = [''CWD /a/b/c'' @ CRLF, ''CWD /a/b'' @ CRLF, ''CWD /a'' @ CRLF,
          ''MKD /a'' @ CRLF, ''MKD /a/b'' @ CRLF, ''MKD /a/b/c'' @ CRLF]
   \<and> fst (ensureDir dirServer ''/a/b/c'' True
            (snd (ensureDir dirServer ''/a/b/c'' True (connectedClient, [])))) = Resolved ()
   \<and> socketWritten (fst (snd (ensureDir dirServer ''/a/b/c'' True
            (snd (ensureDir dirServer ''/a/b/c'' True (connectedClient, []))))))
       = [''CWD /a/b/c'' @ CRLF, ''CWD /a/b'' @ CRLF, ''CWD /a'' @ CRLF,
          ''MKD /a'' @ CRLF, ''MKD /a/b'' @ CRLF, ''MKD /a/b/c'' @ CRLF, ''CWD /a/b/c'' @ CRLF]"
proof -
  let ?cs1 = "snd (ensureDir dirServer ''/a/b/c'' True (connectedClient, []))"
  have first: "ensureDir dirServer ''/a/b/c'' True (connectedClient, []) = (Resolved (), ?cs1)"
    by (simp add: await_eval command_eval client_eval)
  have w1: "socketWritten (fst ?cs1)
       = [''CWD /a/b/c'' @ CRLF, ''CWD /a/b'' @ CRLF, ''CWD /a'' @ CRLF,
          ''MKD /a'' @ CRLF, ''MKD /a/b'' @ CRLF, ''MKD /a/b/c'' @ CRLF]"
    by (simp add: await_eval command_eval client_eval)
  have probe: "normalizePath ''/a/b/c'' = ''/'' \<or> normalizePath ''/a/b/c'' = ''.''
         \<or> fst (cd dirServer (normalizePath ''/a/b/c'')
                   (debugState [''Ensuring directory exists: '' @ ''/a/b/c''] ?cs1)) = Resolved ()"
    by (simp add: await_eval command_eval client_eval)
  have n: "normalizePath ''/a/b/c'' = ''/a/b/c''"
    by (simp add: await_eval command_eval client_eval)
  show ?thesis
    using ensureDir_existing_directory [OF probe] first w1 n by simp
qed

text \<open>
  C8.  Against the server that answers \<open>550 Permission denied.\<close> the first call of
  \<open>ensureDir\<close> resolves, by the swallowed error of C7, without any directory.  The second
  call resolves too, but its \<open>CWD\<close> probe fails again and it issues \<open>MKD\<close> a second
  time.
\<close>

theorem ensureDir_repeats_mkd:
  "fst (ensureDir (replyServer [''550 Permission denied.'']) ''/a'' True (connectedClient, ()))
     = Resolved ()
   \<and> fst (ensureDir (replyServer [''550 Permission denied.'']) ''/a'' True
            (snd (ensureDir (replyServer [''550 Permission denied.'']) ''/a'' True
                    (connectedClient, ())))) = Resolved ()
   \<and> socketWritten (fst (snd (ensureDir (replyServer [''550 Permission denied.'']) ''/a'' True
            (snd (ensureDir (replyServer [''550 Permission denied.'']) ''/a'' True
                    (connectedClient, ()))))))
       = [''CWD /a'' @ CRLF, ''MKD /a'' @ CRLF, ''CWD /a'' @ CRLF, ''MKD /a'' @ CRLF]"
  by (simp add: await_eval command_eval client_eval)

section \<open>Properties of exists\<close>

text \<open>
  C9.  If the \<open>SIZE\<close> command that \<open>exists\<close> issues is rejected with the error of a
  550 reply, \<open>exists\<close> resolves to false; if it resolves, \<open>exists\<close> resolves to true.
\<close>

theorem exists_by_size:
  "(awaitCommand srv (''SIZE '' @ path) False (debugState [''Getting size of '' @ path] cs)
      = (Rejected (Error (''FTP Error 550: '' @ m)), cs')
    \<longrightarrow> exists_cmd srv path cs = (Resolved False, cs'))
   \<and> (awaitCommand srv (''SIZE '' @ path) False (debugState [''Getting size of '' @ path] cs)
        = (Resolved response, cs')
      \<longrightarrow> exists_cmd srv path cs = (Resolved True, cs'))"
  by (simp add: exists_cmd_def size_cmd_def)

theorem exists_by_size_witness:
  "exists_cmd (replyServer [''550 No such file'']) ''/f.txt'' (connectedClient, ())
     = (Resolved False, snd (exists_cmd (replyServer [''550 No such file'']) ''/f.txt'' (connectedClient, ())))
   \<and> exists_cmd (replyServer [''213 1024'']) ''/f.txt'' (connectedClient, ())
     = (Resolved True, snd (exists_cmd (replyServer [''213 1024'']) ''/f.txt'' (connectedClient, ())))"
proof -
  let ?cs = "debugState [''Getting size of '' @ ''/f.txt''] (connectedClient, ())"
  let ?s1 = "replyServer [''550 No such file'']"
  let ?s2 = "replyServer [''213 1024'']"
  have a1: "awaitCommand ?s1 (''SIZE '' @ ''/f.txt'') False ?cs
      = (Rejected (Error (''FTP Error 550: '' @ ''No such file'')),
         snd (awaitCommand ?s1 (''SIZE '' @ ''/f.txt'') False ?cs))"
    by (simp add: await_eval command_eval client_eval)
  have a2: "awaitCommand ?s2 (''SIZE '' @ ''/f.txt'') False ?cs
      = (Resolved \<lparr> code = Num 213, text_message = ''1024'', raw = ''213 1024'' \<rparr>,
         snd (awaitCommand ?s2 (''SIZE '' @ ''/f.txt'') False ?cs))"
    by (simp add: await_eval command_eval client_eval)
  have e1: "exists_cmd ?s1 ''/f.txt'' (connectedClient, ())
      = (Resolved False, snd (awaitCommand ?s1 (''SIZE '' @ ''/f.txt'') False ?cs))"
    using exists_by_size [of ?s1 "''/f.txt''" "(connectedClient, ())" "''No such file''", THEN conjunct1] a1
    by blast
  have e2: "exists_cmd ?s2 ''/f.txt'' (connectedClient, ())
      = (Resolved True, snd (awaitCommand ?s2 (''SIZE '' @ ''/f.txt'') False ?cs))"
    using exists_by_size [of ?s2 "''/f.txt''" "(connectedClient, ())" _ _
        "\<lparr> code = Num 213, text_message = ''1024'', raw = ''213 1024'' \<rparr>", THEN conjunct2] a2
    by blast
  show ?thesis using e1 e2 by simp
qed

text \<open>
  C10.  \<open>exists\<close> never rejects, and it resolves to false whenever the \<open>SIZE\<close>
  command is rejected, whatever the error: a reply with an error code, a command
  timeout, or a control channel that is not connected.
\<close>

theorem exists_never_rejects:
  "fst (exists_cmd srv path cs) \<noteq> Rejected e
   \<and> (awaitCommand srv (''SIZE '' @ path) False (debugState [''Getting size of '' @ path] cs)
        = (Rejected err, cs')
      \<longrightarrow> exists_cmd srv path cs = (Resolved False, cs'))"
  by (auto simp add: exists_cmd_def size_cmd_def split: prod.splits promise.splits)

theorem exists_never_rejects_witness:
  "fst (exists_cmd (eventServer [Deadline]) ''/f.txt'' (connectedClient, ())) = Resolved False
   \<and> fst (exists_cmd (eventServer []) ''/f.txt'' (newClient False, ())) = Resolved False"
proof -
  let ?cs = "debugState [''Getting size of '' @ ''/f.txt''] (connectedClient, ())"
  let ?csn = "debugState [''Getting size of '' @ ''/f.txt''] (newClient False, ())"
  let ?s1 = "eventServer [Deadline]"
  let ?s2 = "eventServer []"
  have a1: "awaitCommand ?s1 (''SIZE '' @ ''/f.txt'') False ?cs
      = (Rejected (Error ''Command timeout: SIZE /f.txt''),
         snd (awaitCommand ?s1 (''SIZE '' @ ''/f.txt'') False ?cs))"
    by (simp add: await_eval command_eval client_eval)
  have a2: "awaitCommand ?s2 (''SIZE '' @ ''/f.txt'') False ?csn
      = (Rejected (Error ''Not connected''),
         snd (awaitCommand ?s2 (''SIZE '' @ ''/f.txt'') False ?csn))"
    by (simp add: await_eval command_eval client_eval)
  have e1: "exists_cmd ?s1 ''/f.txt'' (connectedClient, ())
      = (Resolved False, snd (awaitCommand ?s1 (''SIZE '' @ ''/f.txt'') False ?cs))"
    using exists_never_rejects [of ?s1 "''/f.txt''" "(connectedClient, ())", THEN conjunct2] a1
    by blast
  have e2: "exists_cmd ?s2 ''/f.txt'' (newClient False, ())
      = (Resolved False, snd (awaitCommand ?s2 (''SIZE '' @ ''/f.txt'') False ?csn))"
    using exists_never_rejects [of ?s2 "''/f.txt''" "(newClient False, ())", THEN conjunct2] a2
    by blast
  show ?thesis using e1 e2 by simp
qed

section \<open>Properties of the transfers\<close>

lemma settle_not_Pending: "new \<noteq> Pending \<Longrightarrow> settle new old \<noteq> Pending"
  by (simp add: settle_def)

lemma propagateCommand_propagated: "commandPropagated (propagateCommand t)"
  by (auto simp: commandPropagated_def propagateCommand_def settle_def split: promise.splits)

lemma propagateCommand_fields [simp]:
  "tCommand (propagateCommand t) = tCommand t"
  "tClient (propagateCommand t) = tClient t"
  "dataChunks (propagateCommand t) = dataChunks t"
  "finalHandlerOn (propagateCommand t) = finalHandlerOn t"
  "fallbackArmed (propagateCommand t) = fallbackArmed t"
  by (simp_all add: propagateCommand_def split: promise.splits)

lemma transferStep_propagated:
  "commandPropagated t \<Longrightarrow> commandPropagated (transferStep kind path ev t)"
proof (cases ev)
  case DataConnected
  assume p: "commandPropagated t"
  show ?thesis
  proof (cases "commandSent t")
    case True
    then show ?thesis using p DataConnected by (simp add: transferStep_def dataConnected_def)
  next
    case False
    let ?c1 = "case kind of
                 Upload data \<Rightarrow> debugMsg [''Data connection established for upload''] (tClient t)
               | Download \<Rightarrow> debugMsg [''Data connection established for download''] (tClient t)
               | Listing \<Rightarrow> tClient t"
    let ?s = "sendCommand (transferCommand kind path) ?c1"
    let ?t1 = "propagateCommand (t\<lparr> commandSent := True, tClient := fst ?s, tCommand := snd ?s \<rparr>)"
    have "commandPropagated ?t1" by (rule propagateCommand_propagated)
    then have "commandPropagated (case kind of
                 Upload data \<Rightarrow> ?t1\<lparr> dataWritten := dataWritten ?t1 @ [data], dataEnded := True \<rparr>
               | Download \<Rightarrow> ?t1 | Listing \<Rightarrow> ?t1)"
      by (cases kind) (simp_all add: commandPropagated_def)
    then show ?thesis
      using False DataConnected by (simp add: transferStep_def dataConnected_def Let_def)
  qed
next
  case (DataChunk chunk)
  assume "commandPropagated t"
  then show ?thesis
    using DataChunk by (cases kind) (simp_all add: transferStep_def dataChunk_def commandPropagated_def)
next
  case (DataError err)
  assume "commandPropagated t"
  then show ?thesis
    using DataError by (auto simp: transferStep_def commandPropagated_def settle_def)
next
  case DataClosed
  assume "commandPropagated t"
  then show ?thesis
    using DataClosed by (simp add: transferStep_def commandPropagated_def)
next
  case (ControlResponse line)
  then show ?thesis by (simp add: transferStep_def propagateCommand_propagated)
next
  case CommandDeadline
  then show ?thesis by (simp add: transferStep_def propagateCommand_propagated)
next
  case FallbackElapsed
  assume "commandPropagated t"
  then show ?thesis
    using FallbackElapsed
    by (cases kind)
       (auto simp: transferStep_def fallbackTimer_def commandPropagated_def settle_def)
qed

lemma transferRun_propagated:
  "commandPropagated t \<Longrightarrow> commandPropagated (transferRun kind path evs t)"
proof (induction evs arbitrary: t)
  case Nil
  then show ?case by (simp add: transferRun_def)
next
  case (Cons ev evs)
  have "transferRun kind path (ev # evs) t = transferRun kind path evs (transferStep kind path ev t)"
    by (simp add: transferRun_def)
  then show ?case
    using Cons.IH [OF transferStep_propagated [OF Cons.prems]] by simp
qed

lemma transferStart_propagated: "commandPropagated (transferStart c)"
  by (simp add: commandPropagated_def transferStart_def)

lemma transferRun_append:
  "transferRun kind path (xs @ ys) t = transferRun kind path ys (transferRun kind path xs t)"
  by (simp add: transferRun_def)

lemma responseHandler_quiet:
  assumes "quietLine line" and "\<forall>err. result (snd s) \<noteq> Rejected err"
  shows "\<forall>err. result (snd (responseHandler True line s)) \<noteq> Rejected err"
proof (cases "lineCode line")
  case NaN
  then show ?thesis
    using assms by (cases s) (auto simp: responseHandler_def quietLine_def Let_def settle_def)
next
  case (Num n)
  then show ?thesis
    using assms by (cases s) (auto simp: responseHandler_def quietLine_def Let_def settle_def)
next
  case PosInfinity
  then show ?thesis
    using assms by (cases s) (auto simp: responseHandler_def quietLine_def Let_def settle_def)
next
  case NegInfinity
  then show ?thesis
    using assms by (cases s) (auto simp: responseHandler_def quietLine_def Let_def settle_def)
qed

lemma commandEvent_quiet:
  assumes "quietLine line" and "\<forall>err. result (tCommand t) \<noteq> Rejected err"
  shows "(\<forall>err. result (tCommand (commandEvent kind path (Response line) t)) \<noteq> Rejected err)
     \<and> outcome (commandEvent kind path (Response line) t) = outcome t
     \<and> fallbackArmed (commandEvent kind path (Response line) t) = fallbackArmed t
     \<and> dataChunks (commandEvent kind path (Response line) t) = dataChunks t"
proof -
  let ?s = "(tClient t, tCommand t)"
  have "\<forall>err. result (snd (commandStep (transferCommand kind path) True (Response line) ?s))
          \<noteq> Rejected err"
    using responseHandler_quiet [OF assms(1), of ?s] assms(2)
    by (simp add: commandStep_def)
  then show ?thesis
    by (auto simp: commandEvent_def split: prod.splits)
qed

lemma finalHandler_quiet:
  assumes "quietLine line"
  shows "finalHandler kind line t = t"
  using assms by (simp add: finalHandler_def quietLine_def)

lemma transferStep_quiet:
  assumes "quietLine line" and "awaitingFinal t"
  shows "awaitingFinal (transferStep kind path (ControlResponse line) t)
     \<and> dataChunks (transferStep kind path (ControlResponse line) t) = dataChunks t"
proof -
  let ?t1 = "commandEvent kind path (Response line) t"
  have nr: "\<forall>err. result (tCommand t) \<noteq> Rejected err"
    using assms(2) by (simp add: awaitingFinal_def)
  note q = commandEvent_quiet [OF assms(1) nr, of kind path]
  have step: "transferStep kind path (ControlResponse line) t = propagateCommand ?t1"
    by (simp add: transferStep_def finalHandler_quiet [OF assms(1)])
  have "propagateCommand ?t1 = ?t1"
    using q by (cases "result (tCommand ?t1)") (simp_all add: propagateCommand_def)
  then show ?thesis
    using step q assms(2) by (simp add: awaitingFinal_def)
qed

lemma transferRun_quiet:
  assumes "\<forall>l \<in> set ls. quietLine l" and "awaitingFinal t"
  shows "awaitingFinal (transferRun kind path (map ControlResponse ls) t)
     \<and> dataChunks (transferRun kind path (map ControlResponse ls) t) = dataChunks t"
  using assms
proof (induction ls arbitrary: t)
  case Nil
  then show ?case by (simp add: transferRun_def)
next
  case (Cons l ls)
  let ?t1 = "transferStep kind path (ControlResponse l) t"
  have s: "awaitingFinal ?t1 \<and> dataChunks ?t1 = dataChunks t"
    using transferStep_quiet [of l t kind path] Cons.prems by simp
  have "transferRun kind path (map ControlResponse (l # ls)) t
          = transferRun kind path (map ControlResponse ls) ?t1"
    by (simp add: transferRun_def)
  then show ?case
    using Cons.IH [of ?t1] Cons.prems(1) s by simp
qed

text \<open>
  C2.  The data socket has closed and the promise of the transfer is still pending.  If
  only quiet lines arrive on the control channel before the fallback timer fires, then at
  the timer an upload resolves, a listing resolves with the data received, and a download
  that has received at least one chunk resolves with the data received, with no terminal
  reply seen.
\<close>

theorem transfer_fallback:
  assumes "t1 = transferRun kind path (before @ [DataClosed]) (transferStart c)"
    and "outcome t1 = Pending"
    and "\<forall>l \<in> set ls. quietLine l"
    and "kind = Download \<longrightarrow> dataChunks t1 \<noteq> []"
  shows "outcome (transferRun kind path (map ControlResponse ls @ [FallbackElapsed]) t1) =
     (case kind of
        Upload data \<Rightarrow> Resolved Undefined
      | Download \<Rightarrow> Resolved (Bytes (concat (dataChunks t1)))
      | Listing \<Rightarrow> Resolved (Text (concat (dataChunks t1))))"
proof -
  let ?t0 = "transferRun kind path before (transferStart c)"
  have t1: "t1 = transferStep kind path DataClosed ?t0"
    using assms(1) by (simp add: transferRun_def)
  have armed: "fallbackArmed t1"
    using t1 by (simp add: transferStep_def)
  have "commandPropagated t1"
    unfolding assms(1) by (rule transferRun_propagated [OF transferStart_propagated])
  then have w: "awaitingFinal t1"
    using armed assms(2) by (auto simp: awaitingFinal_def commandPropagated_def)
  let ?t2 = "transferRun kind path (map ControlResponse ls) t1"
  have w2: "awaitingFinal ?t2" and ch: "dataChunks ?t2 = dataChunks t1"
    using transferRun_quiet [OF assms(3) w, of kind path] by simp_all
  have "transferRun kind path (map ControlResponse ls @ [FallbackElapsed]) t1
          = fallbackTimer kind ?t2"
    using w2 by (simp add: transferRun_def transferStep_def awaitingFinal_def)
  then show ?thesis
    using w2 ch assms(4)
    by (cases kind) (simp_all add: fallbackTimer_def awaitingFinal_def settle_def)
qed

lemma transfer_lines:
  "lineCode ''150 Opening'' = Num 150" "isFinalLine ''150 Opening''"
  "lineCode ''226 Transfer complete'' = Num 226" "isFinalLine ''226 Transfer complete''"
  by (simp_all add: lineCode_def parseInt_def substring_def clampIndex_def isWhiteSpace_def
        isRadixDigit_def digitValue_def digitsValue_def fround_def roundToDouble_def Let_def
        isFinalLine_def charAt_def)

lemmas transfer_eval = transferRun_def transferStep_def transferStart_def dataConnected_def
  dataChunk_def finalHandler_def fallbackTimer_def commandEvent_def propagateCommand_def
  transferCommand_def commandStep_def responseHandler_def commandTimeout_def settle_def
  sendCommand_pending connected_connectedClient transfer_lines Let_def

theorem transfer_fallback_witness:
  "outcome (transferRun (Upload ''hello'') ''/f.txt''
              (map ControlResponse [''150 Opening''] @ [FallbackElapsed])
              (transferRun (Upload ''hello'') ''/f.txt'' ([DataConnected] @ [DataClosed])
                 (transferStart connectedClient)))
     = Resolved Undefined
   \<and> outcome (transferRun Download ''/f.txt''
              (map ControlResponse [] @ [FallbackElapsed])
              (transferRun Download ''/f.txt''
                 ([DataConnected, ControlResponse ''150 Opening'', DataChunk ''hello''] @ [DataClosed])
                 (transferStart connectedClient)))
     = Resolved (Bytes ''hello'')"
proof -
  let ?u = "transferRun (Upload ''hello'') ''/f.txt'' ([DataConnected] @ [DataClosed])
              (transferStart connectedClient)"
  have pu: "outcome ?u = Pending"
    by (simp add: transfer_eval)
  have q: "\<forall>l \<in> set [''150 Opening'']. quietLine l"
    by (simp add: quietLine_def transfer_lines)
  let ?d = "transferRun Download ''/f.txt''
              ([DataConnected, ControlResponse ''150 Opening'', DataChunk ''hello''] @ [DataClosed])
              (transferStart connectedClient)"
  have pd: "outcome ?d = Pending"
    by (simp add: transfer_eval)
  have cd: "dataChunks ?d = [''hello'']"
    by (simp add: transfer_eval)
  have e: "\<forall>l \<in> set ([] :: string list). quietLine l"
    by simp
  have nu: "Upload ''hello'' = Download \<longrightarrow> dataChunks ?u \<noteq> []"
    by simp
  have nd: "Download = Download \<longrightarrow> dataChunks ?d \<noteq> []"
    using cd by simp
  show ?thesis
    using transfer_fallback [OF refl pu q nu] transfer_fallback [OF refl pd e nd] cd
    by simp
qed

theorem download_fallback_without_data:
  "outcome (transferRun Download ''/empty.txt''
              [DataConnected, ControlResponse ''150 Opening'', DataClosed, FallbackElapsed]
              (transferStart connectedClient)) = Pending"
  by (simp add: transfer_eval)

end
